theory Spec2Isabelle
  imports Complex_Main "HOL-Library.AList" "HOL-Library.Word"
begin

section \<open>openWakeWord: the streaming \<open>Model\<close> class of \<open>openwakeword/model.py\<close>\<close>

text \<open>
  The development embeds the class \<open>Model\<close>: model registration (\<open>__init__\<close>), the
  reverse lookup \<open>get_parent_model_from_label\<close>, \<open>reset\<close>, the per-frame \<open>predict\<close>
  and \<open>predict_clip\<close>.

  A score is the real number that a non-NaN float denotes, tagged with its kind (a
  Python float or a NumPy scalar of some element type), since the element type of
  \<open>np.array(deque)\<close> decides how the threshold is compared. Python dictionaries that
  are iterated are association lists in insertion order (assignment to a key is
  \<open>AList.update\<close>: an existing key keeps its position, a new key goes last; lookup
  is \<open>map_of\<close>), the \<open>defaultdict\<close> of deques is a map from labels to lists, and
  every exception is a value of \<open>error\<close>. The ONNX runtime, the \<open>AudioFeatures\<close>
  preprocessor, \<open>json.loads\<close>, \<open>int\<close> on strings, NumPy's conversion of a Python float
  to a narrower element type, \<open>wave\<close> and \<open>time.time\<close> are parameters, collected in
  the record \<open>env\<close>.
\<close>

subsection \<open>Python primitives\<close>

datatype error =
  ValueError | KeyError | IndexError | AttributeError | JSONDecodeError | LoadError | WaveError

text \<open>\<open>s.split(sep)\<close> for a one-character separator: never empty.\<close>

fun py_split :: "char \<Rightarrow> string \<Rightarrow> string list" where
  "py_split sep [] = [ []]"
| "py_split sep (c # cs) =
     (if c = sep then [] # py_split sep cs
      else (case py_split sep cs of
              [] \<Rightarrow> [ [c]]
            | w # ws \<Rightarrow> (c # w) # ws))"

text \<open>\<open>s.strip(chars)\<close>: drops every leading and every trailing character that occurs in
  \<open>chars\<close>.\<close>

definition py_strip :: "string \<Rightarrow> string \<Rightarrow> string" where
  "py_strip chars s =
     rev (dropWhile (\<lambda>c. c \<in> set chars) (rev (dropWhile (\<lambda>c. c \<in> set chars) s)))"

text \<open>Indexing \<open>xs[i]\<close>: negative indices count from the end, out of range raises.\<close>

definition py_index :: "'a list \<Rightarrow> int \<Rightarrow> 'a option" where
  "py_index xs i =
     (if 0 \<le> i \<and> i < int (length xs) then Some (xs ! nat i)
      else if i < 0 \<and> - int (length xs) \<le> i then Some (xs ! nat (int (length xs) + i))
      else None)"

text \<open>A slice bound \<open>i\<close> on a sequence of length \<open>n\<close>, as slicing clamps it.\<close>

definition py_clamp :: "nat \<Rightarrow> int \<Rightarrow> nat" where
  "py_clamp n i = (if i < 0 then nat (max 0 (int n + i)) else min (nat i) n)"

text \<open>\<open>xs[lo:]\<close> and \<open>xs[lo:hi]\<close>.\<close>

definition py_slice_from :: "'a list \<Rightarrow> int \<Rightarrow> 'a list" where
  "py_slice_from xs lo = drop (py_clamp (length xs) lo) xs"

definition py_slice :: "'a list \<Rightarrow> int \<Rightarrow> int \<Rightarrow> 'a list" where
  "py_slice xs lo hi =
     (let a = py_clamp (length xs) lo; b = py_clamp (length xs) hi
      in take (b - a) (drop a xs))"

text \<open>\<open>range(start, stop, step)\<close> for a positive step (the only use in the source).\<close>

function py_range :: "int \<Rightarrow> int \<Rightarrow> int \<Rightarrow> int list" where
  "py_range i stop step =
     (if 0 < step \<and> i < stop then i # py_range (i + step) stop step else [])"
  by pat_completeness auto
termination
  by (relation "measure (\<lambda>(i, stop, step). nat (stop - i))") auto

declare py_range.simps [simp del]

text \<open>\<open>collections.deque(maxlen=n).append(v)\<close>: push on the right, and drop the leftmost
  entry when the length exceeds \<open>maxlen\<close>.\<close>

definition deque_append :: "nat \<Rightarrow> 'a list \<Rightarrow> 'a \<Rightarrow> 'a list" where
  "deque_append maxlen d v =
     (let d' = d @ [v] in if length d' > maxlen then tl d' else d')"

subsection \<open>Data model\<close>

type_synonym sample = "16 word"

text \<open>The floats that occur as scores: the Python float (a float64; the source writes the
  literal \<open>0.0\<close>) and the NumPy scalar that indexing an output row gives, of the
  row's element type. Each carries the real number it denotes; the source never
  computes with scores, it only stores, compares and returns them.\<close>

datatype dtype = Float16 | Float32 | Float64

datatype score = PyFloat real | NpFloat dtype real

fun float_value :: "score \<Rightarrow> real" where
  "float_value (PyFloat r) = r"
| "float_value (NpFloat t r) = r"

fun dtype_of :: "score \<Rightarrow> dtype" where
  "dtype_of (PyFloat r) = Float64"
| "dtype_of (NpFloat t r) = t"

text \<open>The element type of \<open>np.array(xs)\<close> for a sequence of such floats: the widest
  type among them, and float64 for the empty sequence.\<close>

definition array_dtype :: "score list \<Rightarrow> dtype" where
  "array_dtype xs =
     (if xs = [] \<or> Float64 \<in> dtype_of ` set xs then Float64
      else if Float32 \<in> dtype_of ` set xs then Float32
      else Float16)"

text \<open>\<open>class_mapping[mdl]\<close> is either the dictionary decoded from the output name
  (stringified index to label) or the model's name itself.\<close>

datatype label_mapping = Multiclass "(string \<times> string) list" | Binary string

text \<open>What the source reads from an \<open>ort.InferenceSession\<close>: the second dimension of the
  first input and of the first output, their names, and \<open>run\<close>, which here returns the
  values of the row \<open>prediction[0][0]\<close> for the given input name and feature window.
  The row is a NumPy array of the element type of the first output.\<close>

record 'f onnx_session =
  inputs0_shape1 :: nat
  outputs0_shape1 :: nat
  outputs0_name :: string
  outputs0_dtype :: dtype
  inputs0_name :: string
  run :: "string \<Rightarrow> 'f \<Rightarrow> real list"

text \<open>The five dictionaries \<open>models\<close>, \<open>model_inputs\<close>, \<open>model_outputs\<close>,
  \<open>class_mapping\<close> and \<open>model_input_names\<close> are written together under the same key, so
  they are one association list from the model name to the five values.\<close>

record 'f model_entry =
  session :: "'f onnx_session"
  model_input :: nat
  model_output :: nat
  class_mapping :: label_mapping
  model_input_name :: string

type_synonym 'f registry = "(string \<times> 'f model_entry) list"

type_synonym prediction_buffer = "string \<rightharpoonup> score list"

text \<open>The external collaborators. \<open>np_astype E t r\<close> is the Python float \<open>r\<close> converted
  to the element type \<open>t\<close>, as NumPy converts a Python scalar that meets an array of a
  narrower float type.\<close>

record ('p, 'f) env =
  InferenceSession :: "string \<Rightarrow> error + 'f onnx_session"
  json_loads :: "string \<Rightarrow> error + (string \<times> string) list"
  py_int :: "string \<Rightarrow> int option"
  np_astype :: "dtype \<Rightarrow> real \<Rightarrow> real"
  AudioFeatures :: 'p
  preprocess :: "'p \<Rightarrow> sample list \<Rightarrow> 'p"
  get_features :: "'p \<Rightarrow> nat \<Rightarrow> 'f"
  time_time :: "nat \<Rightarrow> real"
  wave_read :: "string \<Rightarrow> error + sample list"

text \<open>The object \<open>self\<close>, together with the two pieces of the outside world that
  \<open>predict\<close> touches when \<open>timing\<close> is set: the number of clock readings taken so far
  (the \<open>n\<close>-th call of \<open>time.time()\<close> returns \<open>time_time E n\<close>) and what was printed
  (one entry per \<open>pprint\<close>: the dictionary under \<open>timing_dict["models"]\<close>).\<close>

record ('p, 'f) model =
  models :: "'f registry"
  prediction_buffer :: prediction_buffer
  preprocessor :: 'p
  clock :: nat
  stdout :: "(string \<times> real) list list"

subsection \<open>\<open>__init__\<close>\<close>

text \<open>\<open>os.path.sep\<close> on a POSIX system.\<close>

definition os_path_sep :: char where
  "os_path_sep = CHR ''/''"

text \<open>\<open>mdl_path.split(os.path.sep)[-1].strip(".onnx")\<close>\<close>

definition mdl_name_of :: "string \<Rightarrow> string" where
  "mdl_name_of mdl_path = py_strip ''.onnx'' (last (py_split os_path_sep mdl_path))"

definition load_class_mapping ::
  "('p, 'f) env \<Rightarrow> string \<Rightarrow> string \<Rightarrow> error + label_mapping" where
  "load_class_mapping E mdl_name output_name =
     (if CHR ''{'' \<in> set output_name
      then (case json_loads E output_name of
              Inl e \<Rightarrow> Inl e
            | Inr d \<Rightarrow> Inr (Multiclass d))
      else Inr (Binary mdl_name))"

fun load_models ::
  "('p, 'f) env \<Rightarrow> string list \<Rightarrow> 'f registry \<Rightarrow> error + 'f registry" where
  "load_models E [] reg = Inr reg"
| "load_models E (mdl_path # rest) reg =
     (let mdl_name = mdl_name_of mdl_path in
      case InferenceSession E mdl_path of
        Inl e \<Rightarrow> Inl e
      | Inr s \<Rightarrow>
          (case load_class_mapping E mdl_name (outputs0_name s) of
             Inl e \<Rightarrow> Inl e
           | Inr cm \<Rightarrow>
               load_models E rest
                 (AList.update mdl_name
                    \<lparr>session = s,
                     model_input = inputs0_shape1 s,
                     model_output = outputs0_shape1 s,
                     class_mapping = cm,
                     model_input_name = inputs0_name s\<rparr> reg)))"

definition new_buffer :: prediction_buffer where
  "new_buffer = Map.empty"

definition Model_init ::
  "('p, 'f) env \<Rightarrow> string list \<Rightarrow> error + ('p, 'f) model" where
  "Model_init E wakeword_model_paths =
     (case load_models E wakeword_model_paths [] of
        Inl e \<Rightarrow> Inl e
      | Inr reg \<Rightarrow>
          Inr \<lparr>models = reg, prediction_buffer = new_buffer,
               preprocessor = AudioFeatures E, clock = 0, stdout = []\<rparr>)"

subsection \<open>\<open>get_parent_model_from_label\<close> and \<open>reset\<close>\<close>

text \<open>The loop has no \<open>break\<close>: every later match overwrites \<open>parent_model\<close>.\<close>

fun parent_loop :: "'f registry \<Rightarrow> string \<Rightarrow> string \<Rightarrow> string" where
  "parent_loop [] label parent_model = parent_model"
| "parent_loop ((mdl, e) # rest) label parent_model =
     (case class_mapping e of
        Multiclass d \<Rightarrow>
          (if label \<in> snd ` set d then parent_loop rest label mdl
           else parent_loop rest label parent_model)
      | Binary s \<Rightarrow>
          (if label = s then parent_loop rest label s
           else parent_loop rest label parent_model))"

definition get_parent_model_from_label :: "('p, 'f) model \<Rightarrow> string \<Rightarrow> string" where
  "get_parent_model_from_label self label = parent_loop (models self) label ''''"

definition reset :: "('p, 'f) model \<Rightarrow> ('p, 'f) model" where
  "reset self = self\<lparr>prediction_buffer := new_buffer\<rparr>"

subsection \<open>\<open>predict\<close>\<close>

type_synonym scores = "(string \<times> score) list"

text \<open>\<open>self.prediction_buffer[label]\<close> on the \<open>defaultdict\<close>: a missing label reads as
  the empty deque.\<close>

definition buf_get :: "prediction_buffer \<Rightarrow> string \<Rightarrow> score list" where
  "buf_get b label = (case b label of None \<Rightarrow> [] | Some d \<Rightarrow> d)"

text \<open>The body of the buffer loop for one label: the score is replaced by \<open>0.0\<close> while the
  deque holds fewer than 5 entries, then appended. Returns the score left in
  \<open>predictions\<close> and the new buffer.\<close>

definition append_score ::
  "prediction_buffer \<Rightarrow> string \<Rightarrow> score \<Rightarrow> score \<times> prediction_buffer" where
  "append_score b label v =
     (let v' = (if length (buf_get b label) < 5 then PyFloat 0 else v)
      in (v', b(label \<mapsto> deque_append 30 (buf_get b label) v')))"

text \<open>\<open>for mdl in predictions.keys(): ...\<close>\<close>

fun update_buffer :: "scores \<Rightarrow> prediction_buffer \<Rightarrow> scores \<times> prediction_buffer" where
  "update_buffer [] b = ([], b)"
| "update_buffer ((label, v) # ps) b =
     (case append_score b label v of
        (v', b') \<Rightarrow>
          (case update_buffer ps b' of
             (ps', b'') \<Rightarrow> ((label, v') # ps', b'')))"

text \<open>\<open>for int_label, cls in self.class_mapping[mdl].items():
  predictions[cls] = prediction[0][0][int(int_label)]\<close>\<close>

fun assign_classes ::
  "('p, 'f) env \<Rightarrow> (string \<times> string) list \<Rightarrow> score list \<Rightarrow> scores \<Rightarrow> error + scores" where
  "assign_classes E [] prediction predictions = Inr predictions"
| "assign_classes E ((int_label, cls) # rest) prediction predictions =
     (case py_int E int_label of
        None \<Rightarrow> Inl ValueError
      | Some i \<Rightarrow>
          (case py_index prediction i of
             None \<Rightarrow> Inl IndexError
           | Some v \<Rightarrow> assign_classes E rest prediction (AList.update cls v predictions)))"

definition score_model ::
  "('p, 'f) env \<Rightarrow> string \<Rightarrow> 'f model_entry \<Rightarrow> score list \<Rightarrow> scores \<Rightarrow> error + scores" where
  "score_model E mdl e prediction predictions =
     (if model_output e = 1
      then (case py_index prediction 0 of
              None \<Rightarrow> Inl IndexError
            | Some v \<Rightarrow> Inr (AList.update mdl v predictions))
      else (case class_mapping e of
              Binary s \<Rightarrow> Inl AttributeError
            | Multiclass d \<Rightarrow> assign_classes E d prediction predictions))"

text \<open>\<open>self.models[mdl].run(None, {input_name: self.preprocessor.get_features(
  self.model_inputs[mdl])})[0][0]\<close>: the output row, whose entries are NumPy scalars of
  the output's element type.\<close>

definition run_model :: "('p, 'f) env \<Rightarrow> 'f model_entry \<Rightarrow> 'p \<Rightarrow> score list" where
  "run_model E e pre =
     (let input_name = model_input_name e
      in map (NpFloat (outputs0_dtype (session e)))
           (run (session e) input_name (get_features E pre (model_input e))))"

text \<open>The loop over \<open>self.models.keys()\<close>. The buffer loop is nested in it and reuses the
  variable \<open>mdl\<close>, so the timing entry is stored under the last label of \<open>predictions\<close>.
  An exception leaves the buffer as the earlier iterations wrote it.\<close>

fun predict_models ::
  "('p, 'f) env \<Rightarrow> bool \<Rightarrow> 'f registry \<Rightarrow> scores \<Rightarrow> (string \<times> real) list \<Rightarrow>
   ('p, 'f) model \<Rightarrow> (error + scores \<times> (string \<times> real) list) \<times> ('p, 'f) model" where
  "predict_models E timing [] predictions timing_dict self =
     (Inr (predictions, timing_dict), self)"
| "predict_models E timing ((mdl, e) # rest) predictions timing_dict self =
     (let model_start = time_time E (clock self);
          self1 = (if timing then self\<lparr>clock := Suc (clock self)\<rparr> else self);
          prediction = run_model E e (preprocessor self1)
      in case score_model E mdl e prediction predictions of
           Inl err \<Rightarrow> (Inl err, self1)
         | Inr predictions1 \<Rightarrow>
             (case update_buffer predictions1 (prediction_buffer self1) of
                (predictions2, b) \<Rightarrow>
                  (let self2 = self1\<lparr>prediction_buffer := b\<rparr>;
                       mdl' = (if predictions2 = [] then mdl else fst (last predictions2));
                       model_end = time_time E (clock self2)
                   in if timing
                      then predict_models E timing rest predictions2
                             (AList.update mdl' (model_end - model_start) timing_dict)
                             (self2\<lparr>clock := Suc (clock self2)\<rparr>)
                      else predict_models E timing rest predictions2 timing_dict self2)))"

text \<open>\<open>(scores >= t).sum()\<close> for an array of element type \<open>arr_dtype\<close> and a Python float
  \<open>t\<close>: NumPy compares in the array's element type. A float64 array meets the Python
  float as it is; for a narrower array the Python float is first converted to that
  type. The entries themselves are compared exactly.\<close>

definition count_ge :: "('p, 'f) env \<Rightarrow> dtype \<Rightarrow> score list \<Rightarrow> real \<Rightarrow> nat" where
  "count_ge E arr_dtype scores t =
     (let t' = (if arr_dtype = Float64 then t else np_astype E arr_dtype t)
      in length (filter (\<lambda>s. t' \<le> float_value s) scores))"

text \<open>\<open>np.array(self.prediction_buffer[mdl])[-patience[parent_model]:]\<close> and
  \<open>(scores >= threshold[parent_model]).sum() < patience[parent_model]\<close>. The slice has
  the element type of the array of the whole deque.\<close>

fun apply_patience ::
  "('p, 'f) env \<Rightarrow> ('p, 'f) model \<Rightarrow> (string \<times> int) list \<Rightarrow> (string \<times> real) list \<Rightarrow>
   scores \<Rightarrow> error + scores" where
  "apply_patience E self patience threshold [] = Inr []"
| "apply_patience E self patience threshold ((mdl, v) # ps) =
     (let parent_model = get_parent_model_from_label self mdl in
      case map_of patience parent_model of
        None \<Rightarrow>
          (case apply_patience E self patience threshold ps of
             Inl err \<Rightarrow> Inl err
           | Inr ps' \<Rightarrow> Inr ((mdl, v) # ps'))
      | Some k \<Rightarrow>
          (let arr = buf_get (prediction_buffer self) mdl;
               scores = py_slice_from arr (- k) in
           case map_of threshold parent_model of
             None \<Rightarrow> Inl KeyError
           | Some t \<Rightarrow>
               (let v' = (if int (count_ge E (array_dtype arr) scores t) < k then PyFloat 0
                          else v) in
                case apply_patience E self patience threshold ps of
                  Inl err \<Rightarrow> Inl err
                | Inr ps' \<Rightarrow> Inr ((mdl, v') # ps'))))"

definition debounce ::
  "('p, 'f) env \<Rightarrow> ('p, 'f) model \<Rightarrow> (string \<times> int) list \<Rightarrow> (string \<times> real) list \<Rightarrow>
   scores \<Rightarrow> error + scores" where
  "debounce E self patience threshold predictions =
     (if patience \<noteq> []
      then (if threshold = [] then Inl ValueError
            else apply_patience E self patience threshold predictions)
      else Inr predictions)"

definition predict ::
  "('p, 'f) env \<Rightarrow> ('p, 'f) model \<Rightarrow> sample list \<Rightarrow> (string \<times> int) list \<Rightarrow>
   (string \<times> real) list \<Rightarrow> bool \<Rightarrow> (error + scores) \<times> ('p, 'f) model" where
  "predict E self x patience threshold timing =
     (let feature_start = time_time E (clock self);
          self1 = (if timing then self\<lparr>clock := Suc (clock self)\<rparr> else self);
          self2 = self1\<lparr>preprocessor := preprocess E (preprocessor self1) x\<rparr>;
          feature_end = time_time E (clock self2);
          self3 = (if timing then self2\<lparr>clock := Suc (clock self2)\<rparr> else self2);
          timing_dict = (if timing then [(''preprocessor'', feature_end - feature_start)]
                         else [])
      in case predict_models E timing (models self3) [] timing_dict self3 of
           (Inl err, self4) \<Rightarrow> (Inl err, self4)
         | (Inr (predictions, timing_dict'), self4) \<Rightarrow>
             (case debounce E self4 patience threshold predictions of
                Inl err \<Rightarrow> (Inl err, self4)
              | Inr predictions' \<Rightarrow>
                  if timing
                  then (Inr predictions', self4\<lparr>stdout := stdout self4 @ [timing_dict']\<rparr>)
                  else (Inr predictions', self4)))"

subsection \<open>\<open>predict_clip\<close>\<close>

definition pad_clip :: "int \<Rightarrow> sample list \<Rightarrow> error + sample list" where
  "pad_clip padding data =
     (if padding \<noteq> 0
      then (if padding < 0 then Inl ValueError
            else Inr (replicate (nat (16000 * padding)) 0 @ data
                      @ replicate (nat (16000 * padding)) 0))
      else Inr data)"

fun clip_loop ::
  "('p, 'f) env \<Rightarrow> ('p, 'f) model \<Rightarrow> sample list \<Rightarrow> int list \<Rightarrow> (string \<times> int) list \<Rightarrow>
   (string \<times> real) list \<Rightarrow> bool \<Rightarrow> scores list \<Rightarrow> (error + scores list) \<times> ('p, 'f) model" where
  "clip_loop E self data [] patience threshold timing predictions = (Inr predictions, self)"
| "clip_loop E self data (i # rest) patience threshold timing predictions =
     (case predict E self (py_slice data i (i + 1280)) patience threshold timing of
        (Inl err, self') \<Rightarrow> (Inl err, self')
      | (Inr r, self') \<Rightarrow>
          clip_loop E self' data rest patience threshold timing (predictions @ [r]))"

definition predict_clip ::
  "('p, 'f) env \<Rightarrow> ('p, 'f) model \<Rightarrow> string \<Rightarrow> int \<Rightarrow> (string \<times> int) list \<Rightarrow>
   (string \<times> real) list \<Rightarrow> bool \<Rightarrow> (error + scores list) \<times> ('p, 'f) model" where
  "predict_clip E self clip padding patience threshold timing =
     (case wave_read E clip of
        Inl err \<Rightarrow> (Inl err, self)
      | Inr data0 \<Rightarrow>
          (case pad_clip padding data0 of
             Inl err \<Rightarrow> (Inl err, self)
           | Inr data \<Rightarrow>
               (let step_size = 1280
                in clip_loop E self data
                     (py_range 0 (int (length data) - step_size) step_size)
                     patience threshold timing [])))"

subsection \<open>Notions used in the statements\<close>

text \<open>The definitions of this subsection are not translations of source functions; they
  name what the properties below speak about.\<close>

text \<open>A registry entry owns a label when its mapping contains it; \<open>__init__\<close> stores
  the model's own name as the mapping of every single-label model.\<close>

definition owns :: "string \<Rightarrow> string \<times> 'f model_entry \<Rightarrow> bool" where
  "owns label me =
     (case class_mapping (snd me) of
        Multiclass d \<Rightarrow> label \<in> snd ` set d
      | Binary s \<Rightarrow> label = s)"

definition binary_named :: "'f registry \<Rightarrow> bool" where
  "binary_named reg =
     (\<forall>me \<in> set reg. \<forall>s. class_mapping (snd me) = Binary s \<longrightarrow> s = fst me)"

text \<open>A sequence of appends to one label, and the scores as the cold-start rule stores
  them: the first five zeroed.\<close>

fun append_scores :: "prediction_buffer \<Rightarrow> string \<Rightarrow> score list \<Rightarrow> prediction_buffer" where
  "append_scores b label [] = b"
| "append_scores b label (v # vs) = append_scores (snd (append_score b label v)) label vs"

definition cold_start :: "score list \<Rightarrow> score list" where
  "cold_start vs = replicate (min 5 (length vs)) (PyFloat 0) @ drop 5 vs"

definition bounded :: "prediction_buffer \<Rightarrow> bool" where
  "bounded b = (\<forall>label. length (buf_get b label) \<le> 30)"

definition cold :: "prediction_buffer \<Rightarrow> bool" where
  "cold b = (\<forall>label. length (buf_get b label) \<le> 5 \<longrightarrow> (\<forall>v \<in> set (buf_get b label). v = PyFloat 0))"

text \<open>The debounce rule in the words of the specification: the trailing \<open>k\<close> entries
  of the label's buffer, the count of entries at or above the threshold, and the score
  forced to zero when the count is below \<open>k\<close>. A label whose parent has no patience
  entry (or no threshold entry, which \<open>predict\<close> does not survive) keeps its score.
  \<open>debounced_as_claimed\<close> compares the entries with the threshold itself;
  \<open>debounced\<close> compares them with the threshold as the buffer's array sees it.\<close>

definition trailing :: "int \<Rightarrow> 'a list \<Rightarrow> 'a list" where
  "trailing k xs = drop (length xs - nat k) xs"


definition debounced ::
  "('p, 'f) env \<Rightarrow> ('p, 'f) model \<Rightarrow> (string \<times> int) list \<Rightarrow> (string \<times> real) list \<Rightarrow>
   string \<times> score \<Rightarrow> string \<times> score" where
  "debounced E self patience threshold lv =
     (case lv of
        (label, v) \<Rightarrow>
          (let p = get_parent_model_from_label self label in
           case map_of patience p of
             None \<Rightarrow> (label, v)
           | Some k \<Rightarrow>
               (case map_of threshold p of
                  None \<Rightarrow> (label, v)
                | Some t \<Rightarrow>
                    (label,
                     if int (count_ge E (array_dtype (buf_get (prediction_buffer self) label))
                               (trailing k (buf_get (prediction_buffer self) label)) t) < k
                     then PyFloat 0 else v))))"

text \<open>A label of \<open>predictions\<close> whose parent has a patience entry and no threshold
  entry.\<close>

definition uncovered ::
  "('p, 'f) model \<Rightarrow> (string \<times> int) list \<Rightarrow> (string \<times> real) list \<Rightarrow> string \<Rightarrow> bool" where
  "uncovered self patience threshold label =
     (let p = get_parent_model_from_label self label
      in map_of patience p \<noteq> None \<and> map_of threshold p = None)"

text \<open>The output row fits the model's metadata, so that scoring raises nothing: a
  single-output model needs one value, a multi-output model a dictionary whose keys
  \<open>int\<close> accepts and that index the row.\<close>

definition scorable :: "('p, 'f) env \<Rightarrow> 'f model_entry \<Rightarrow> 'a list \<Rightarrow> bool" where
  "scorable E e prediction =
     (if model_output e = 1 then prediction \<noteq> []
      else (case class_mapping e of
              Binary s \<Rightarrow> False
            | Multiclass d \<Rightarrow>
                (\<forall>int_label \<in> fst ` set d.
                   case py_int E int_label of
                     None \<Rightarrow> False
                   | Some i \<Rightarrow> - int (length prediction) \<le> i \<and> i < int (length prediction))))"

definition registry_ok :: "('p, 'f) env \<Rightarrow> 'f registry \<Rightarrow> bool" where
  "registry_ok E reg =
     (\<forall>me \<in> set reg. \<forall>f. scorable E (snd me) (run (session (snd me)) (model_input_name (snd me)) f))"

text \<open>Calling \<open>predict\<close> once per frame, in order, and the first \<open>n\<close> consecutive
  frames of 1280 samples of a clip.\<close>

fun predict_each ::
  "('p, 'f) env \<Rightarrow> ('p, 'f) model \<Rightarrow> sample list list \<Rightarrow> (string \<times> int) list \<Rightarrow>
   (string \<times> real) list \<Rightarrow> bool \<Rightarrow> (error + scores list) \<times> ('p, 'f) model" where
  "predict_each E self [] patience threshold timing = (Inr [], self)"
| "predict_each E self (x # xs) patience threshold timing =
     (case predict E self x patience threshold timing of
        (Inl err, self') \<Rightarrow> (Inl err, self')
      | (Inr r, self') \<Rightarrow>
          (case predict_each E self' xs patience threshold timing of
             (Inl err, self'') \<Rightarrow> (Inl err, self'')
           | (Inr rs, self'') \<Rightarrow> (Inr (r # rs), self'')))"

definition frames_of :: "sample list \<Rightarrow> nat \<Rightarrow> sample list list" where
  "frames_of data n = map (\<lambda>j. take 1280 (drop (j * 1280) data)) [0..<n]"

text \<open>Every label of \<open>predictions\<close> occurs once, and its score is the newest entry of
  its deque.\<close>

definition fresh_scores :: "scores \<Rightarrow> prediction_buffer \<Rightarrow> bool" where
  "fresh_scores ps b =
     (distinct (map fst ps) \<and>
      (\<forall>lv \<in> set ps. buf_get b (fst lv) \<noteq> [] \<and> last (buf_get b (fst lv)) = snd lv))"

text \<open>The model loop as \<open>predict\<close> enters it: after the frame went to the preprocessor,
  with the clock read twice when \<open>timing\<close> is set.\<close>

definition predict_loop ::
  "('p, 'f) env \<Rightarrow> ('p, 'f) model \<Rightarrow> sample list \<Rightarrow> bool \<Rightarrow>
   (error + scores \<times> (string \<times> real) list) \<times> ('p, 'f) model" where
  "predict_loop E self x timing =
     predict_models E timing (models self) []
       (if timing
        then [(''preprocessor'', time_time E (Suc (clock self)) - time_time E (clock self))]
        else [])
       (if timing
        then self\<lparr>preprocessor := preprocess E (preprocessor self) x,
                  clock := Suc (Suc (clock self))\<rparr>
        else self\<lparr>preprocessor := preprocess E (preprocessor self) x\<rparr>)"


subsection \<open>A concrete environment\<close>

text \<open>Three models and two clips, used to run the definitions on concrete inputs: a
  single-output model, and two multi-output models that both declare the label
  \<open>one\<close>.\<close>

abbreviation f32 :: "real \<Rightarrow> score" where
  "f32 \<equiv> NpFloat Float32"

definition binary_session :: "nat onnx_session" where
  "binary_session =
     \<lparr>inputs0_shape1 = 16, outputs0_shape1 = 1, outputs0_name = ''output'',
      outputs0_dtype = Float32, inputs0_name = ''input'', run = (\<lambda>name f. [7 / 10])\<rparr>"

definition timer_session :: "nat onnx_session" where
  "timer_session =
     \<lparr>inputs0_shape1 = 16, outputs0_shape1 = 3,
      outputs0_name = ''{\"0\": \"one\", \"1\": \"two\", \"2\": \"three\"}'',
      outputs0_dtype = Float32, inputs0_name = ''input'', run = (\<lambda>name f. [1 / 10, 2 / 10, 7 / 10])\<rparr>"

definition words_session :: "nat onnx_session" where
  "words_session =
     \<lparr>inputs0_shape1 = 16, outputs0_shape1 = 2,
      outputs0_name = ''{\"0\": \"one\", \"1\": \"go\"}'',
      outputs0_dtype = Float32, inputs0_name = ''input'', run = (\<lambda>name f. [3 / 10, 4 / 10])\<rparr>"

definition half_session :: "nat onnx_session" where
  "half_session =
     \<lparr>inputs0_shape1 = 16, outputs0_shape1 = 1, outputs0_name = ''output'',
      outputs0_dtype = Float32, inputs0_name = ''input'', run = (\<lambda>name f. [1 / 2])\<rparr>"

text \<open>Conversion to float32 (24 significant bits, to nearest, ties to even) on
  \<open>[1/2, 1)\<close>, where the float32 numbers are the multiples of \<open>2\<^sup>-\<^sup>2\<^sup>4\<close>. The
  thresholds used below lie there.\<close>

definition round_to_float32 :: "real \<Rightarrow> real" where
  "round_to_float32 r =
     (if 1 / 2 \<le> r \<and> r < 1
      then (let y = r * 2 ^ 24; n = \<lfloor>y\<rfloor>
            in real_of_int
                 (if y - real_of_int n < 1 / 2 then n
                  else if 1 / 2 < y - real_of_int n then n + 1
                  else if even n then n else n + 1) / 2 ^ 24)
      else r)"

definition demo_env :: "(nat, nat) env" where
  "demo_env =
     \<lparr>InferenceSession =
        (\<lambda>p. if p = ''models/oxen.onnx'' \<or> p = ''alexa.onnx'' \<or> p = ''jarvis.onnx''
             then Inr binary_session
             else if p = ''half.onnx'' then Inr half_session
             else if p = ''timer.onnx'' then Inr timer_session
             else if p = ''words.onnx'' then Inr words_session
             else Inl LoadError),
      json_loads =
        (\<lambda>s. if s = ''{\"0\": \"one\", \"1\": \"two\", \"2\": \"three\"}''
             then Inr [(''0'', ''one''), (''1'', ''two''), (''2'', ''three'')]
             else if s = ''{\"0\": \"one\", \"1\": \"go\"}''
             then Inr [(''0'', ''one''), (''1'', ''go'')]
             else Inl JSONDecodeError),
      py_int =
        (\<lambda>s. if s = ''0'' then Some 0 else if s = ''1'' then Some 1
             else if s = ''2'' then Some 2 else None),
      np_astype = (\<lambda>t r. if t = Float32 then round_to_float32 r else r),
      AudioFeatures = 0,
      preprocess = (\<lambda>p x. Suc p),
      get_features = (\<lambda>p n. p),
      time_time = real,
      wave_read =
        (\<lambda>clip. if clip = ''clip.wav'' then Inr (replicate 2600 0)
                else if clip = ''whole.wav'' then Inr (replicate 2560 0)
                else Inl WaveError)\<rparr>"

text \<open>The object that \<open>__init__\<close> builds from the two multi-output models.\<close>

definition two_owners :: "(nat, nat) model" where
  "two_owners =
     \<lparr>models =
        [(''timer'', \<lparr>session = timer_session, model_input = 16, model_output = 3,
            class_mapping = Multiclass [(''0'', ''one''), (''1'', ''two''), (''2'', ''three'')],
            model_input_name = ''input''\<rparr>),
         (''words'', \<lparr>session = words_session, model_input = 16, model_output = 2,
            class_mapping = Multiclass [(''0'', ''one''), (''1'', ''go'')],
            model_input_name = ''input''\<rparr>)],
      prediction_buffer = new_buffer, preprocessor = 0, clock = 0, stdout = []\<rparr>"

text \<open>One single-output model, past its cold start: the deque of \<open>alexa\<close> ends with
  the scores 0.6 and 0.4 (respectively 0.6 and 0.5), and the model scores 0.7 on the next
  frame.\<close>

definition alexa_entry :: "nat model_entry" where
  "alexa_entry =
     \<lparr>session = binary_session, model_input = 16, model_output = 1,
      class_mapping = Binary ''alexa'', model_input_name = ''input''\<rparr>"

definition warm_alexa :: "real list \<Rightarrow> (nat, nat) model" where
  "warm_alexa recent =
     \<lparr>models = [(''alexa'', alexa_entry)],
      prediction_buffer =
        [''alexa'' \<mapsto> [PyFloat 0, PyFloat 0, PyFloat 0, PyFloat 0, PyFloat 0]
                       @ map f32 recent],
      preprocessor = 7, clock = 0, stdout = []\<rparr>"

text \<open>The object that \<open>__init__\<close> builds from two single-output models.\<close>

definition jarvis_entry :: "nat model_entry" where
  "jarvis_entry =
     \<lparr>session = binary_session, model_input = 16, model_output = 1,
      class_mapping = Binary ''jarvis'', model_input_name = ''input''\<rparr>"

definition two_binary :: "(nat, nat) model" where
  "two_binary =
     \<lparr>models = [(''alexa'', alexa_entry), (''jarvis'', jarvis_entry)],
      prediction_buffer = new_buffer, preprocessor = 0, clock = 0, stdout = []\<rparr>"

text \<open>A model with three outputs whose output name is not a dictionary: \<open>__init__\<close>
  stores its name as the mapping, and scoring it raises \<open>AttributeError\<close>.\<close>

definition broken_model :: "(nat, nat) model" where
  "broken_model =
     \<lparr>models =
        [(''broken'', \<lparr>session = binary_session, model_input = 16, model_output = 3,
            class_mapping = Binary ''broken'', model_input_name = ''input''\<rparr>)],
      prediction_buffer = new_buffer, preprocessor = 0, clock = 0, stdout = []\<rparr>"

text \<open>One single-output model that scores 0.5 on every frame: as \<open>__init__\<close> builds it
  from \<open>half.onnx\<close>, and as it is after 35 frames, when the deque holds thirty float32
  scores of 0.5 and no cold-start zero.\<close>

definition half_entry :: "nat model_entry" where
  "half_entry =
     \<lparr>session = half_session, model_input = 16, model_output = 1,
      class_mapping = Binary ''half'', model_input_name = ''input''\<rparr>"

definition fresh_half :: "(nat, nat) model" where
  "fresh_half =
     \<lparr>models = [(''half'', half_entry)],
      prediction_buffer = new_buffer, preprocessor = 0, clock = 0, stdout = []\<rparr>"

definition steady_half :: "(nat, nat) model" where
  "steady_half =
     \<lparr>models = [(''half'', half_entry)],
      prediction_buffer = [''half'' \<mapsto> replicate 30 (f32 (1 / 2))],
      preprocessor = 35, clock = 0, stdout = []\<rparr>"
section \<open>Properties\<close>

subsection \<open>Strings: \<open>split\<close> and \<open>strip\<close>\<close>


lemma py_split_nosep: "sep \<notin> set s \<Longrightarrow> py_split sep s = [s]"
  by (induction s) auto

lemma py_split_ne: "py_split sep s \<noteq> []"
  by (induction s) (auto split: list.splits)

lemma py_split_append:
  "py_split sep (d @ sep # s) = py_split sep d @ py_split sep s"
proof (induction d)
  case Nil
  then show ?case by simp
next
  case (Cons c d)
  obtain w ws where w: "py_split sep d = w # ws"
    using py_split_ne[of sep d] by (cases "py_split sep d") auto
  show ?case using Cons w by simp
qed

lemma last_py_split_append:
  "sep \<notin> set s \<Longrightarrow> last (py_split sep (d @ sep # s)) = s"
  by (simp add: py_split_append py_split_nosep)

lemma dropWhile_all: "\<forall>x \<in> set xs. P x \<Longrightarrow> dropWhile P (xs @ ys) = dropWhile P ys"
  by (induction xs) auto

lemma py_strip_append_ext:
  assumes "set ext \<subseteq> set cs"
  shows "py_strip cs (stem @ ext) = py_strip cs stem"
proof -
  let ?P = "\<lambda>c. c \<in> set cs"
  have ext: "\<forall>x \<in> set ext. ?P x" using assms by auto
  show ?thesis
  proof (cases "\<forall>c \<in> set stem. ?P c")
    case True
    have "dropWhile ?P (stem @ ext) = dropWhile ?P ext"
      using True by (rule dropWhile_all)
    also have "\<dots> = []" using ext by simp
    finally have a: "dropWhile ?P (stem @ ext) = []" .
    have b: "dropWhile ?P stem = []" using True by simp
    show ?thesis by (simp add: py_strip_def a b)
  next
    case False
    then have "dropWhile ?P (stem @ ext) = dropWhile ?P stem @ ext"
      by (auto simp: dropWhile_append)
    moreover have "dropWhile ?P (rev ext @ ys) = dropWhile ?P ys" for ys
      using ext by (intro dropWhile_all) simp
    ultimately show ?thesis by (simp add: py_strip_def)
  qed
qed

lemma length_dropWhile_less:
  "xs \<noteq> [] \<Longrightarrow> P (hd xs) \<Longrightarrow> length (dropWhile P xs) < length xs"
  by (cases xs) (auto simp: le_imp_less_Suc length_dropWhile_le)

lemma py_strip_shorter:
  assumes "stem \<noteq> []" "hd stem \<in> set cs \<or> last stem \<in> set cs"
  shows "length (py_strip cs stem) < length stem"
proof -
  let ?P = "\<lambda>c. c \<in> set cs"
  let ?d = "dropWhile ?P stem"
  have le1: "length ?d \<le> length stem" by (rule length_dropWhile_le)
  have le2: "length (py_strip cs stem) \<le> length ?d"
    unfolding py_strip_def using length_dropWhile_le[of ?P "rev ?d"] by simp
  from assms(2) show ?thesis
  proof
    assume "hd stem \<in> set cs"
    then have "length ?d < length stem" using assms(1) by (intro length_dropWhile_less)
    then show ?thesis using le2 by simp
  next
    assume a: "last stem \<in> set cs"
    show ?thesis
    proof (cases "?d = stem")
      case True
      have "hd (rev stem) = last stem" using assms(1) by (simp add: hd_rev)
      then have "length (dropWhile ?P (rev stem)) < length (rev stem)"
        using a assms(1) by (intro length_dropWhile_less) auto
      then show ?thesis using True by (simp add: py_strip_def)
    next
      case False
      have "length ?d \<noteq> length stem"
      proof
        assume "length ?d = length stem"
        moreover have "?d = drop (length (takeWhile ?P stem)) stem" by (rule dropWhile_eq_drop)
        ultimately have "length (takeWhile ?P stem) = 0" using assms(1) by (cases stem) auto
        then have "takeWhile ?P stem = []" by simp
        then have "?d = stem" by (metis takeWhile_dropWhile_id append_Nil)
        then show False using False by simp
      qed
      then show ?thesis using le1 le2 by simp
    qed
  qed
qed

lemma py_strip_neq: 
  "stem \<noteq> [] \<Longrightarrow> hd stem \<in> set cs \<or> last stem \<in> set cs \<Longrightarrow> py_strip cs stem \<noteq> stem"
  using py_strip_shorter[of stem cs] by auto

subsection \<open>The reverse lookup\<close>

lemma parent_loop_last:
  "binary_named reg \<Longrightarrow>
   parent_loop reg label p =
     (case filter (owns label) reg of [] \<Rightarrow> p | m # ms \<Rightarrow> fst (last (m # ms)))"
proof (induction reg arbitrary: p)
  case Nil
  then show ?case by simp
next
  case (Cons me reg)
  obtain mdl e where me: "me = (mdl, e)" by (cases me)
  have bn: "binary_named reg" using Cons.prems by (simp add: binary_named_def)
  have b: "class_mapping e = Binary s \<Longrightarrow> s = mdl" for s
    using Cons.prems by (simp add: binary_named_def me)
  show ?case
  proof (cases "class_mapping e")
    case (Multiclass d)
    then show ?thesis using Cons.IH[OF bn] 
      by (simp add: me owns_def split: list.splits)
  next
    case (Binary s)
    have s: "s = mdl" by (rule b[OF Binary])
    have own: "owns label (mdl, e) = (label = mdl)" by (simp add: owns_def Binary s)
    show ?thesis
    proof (cases "label = mdl")
      case True
      have "parent_loop reg label mdl =
              (case filter (owns label) reg of [] \<Rightarrow> mdl | m # ms \<Rightarrow> fst (last (m # ms)))"
        by (rule Cons.IH[OF bn])
      then show ?thesis using True Binary s own
        by (simp add: me split: list.splits)
    next
      case False
      have "parent_loop reg label p =
              (case filter (owns label) reg of [] \<Rightarrow> p | m # ms \<Rightarrow> fst (last (m # ms)))"
        by (rule Cons.IH[OF bn])
      then show ?thesis using False Binary s own
        by (simp add: me split: list.splits)
    qed
  qed
qed

lemma set_update_subset: "set (AList.update k v al) \<subseteq> insert (k, v) (set al)"
  by (induction al) auto

lemma load_models_binary_named:
  "load_models E paths reg = Inr reg' \<Longrightarrow> binary_named reg \<Longrightarrow> binary_named reg'"
proof (induction paths arbitrary: reg)
  case Nil
  then show ?case by simp
next
  case (Cons p paths)
  from Cons.prems(1) obtain s cm where
    s: "InferenceSession E p = Inr s" and
    cm: "load_class_mapping E (mdl_name_of p) (outputs0_name s) = Inr cm" and
    rest: "load_models E paths
             (AList.update (mdl_name_of p)
               \<lparr>session = s, model_input = inputs0_shape1 s, model_output = outputs0_shape1 s,
                class_mapping = cm, model_input_name = inputs0_name s\<rparr> reg) = Inr reg'"
    by (auto simp: Let_def split: sum.splits)
  have "cm = Binary t \<Longrightarrow> t = mdl_name_of p" for t
    using cm by (auto simp: load_class_mapping_def split: if_splits sum.splits)
  then have "binary_named (AList.update (mdl_name_of p)
               \<lparr>session = s, model_input = inputs0_shape1 s, model_output = outputs0_shape1 s,
                class_mapping = cm, model_input_name = inputs0_name s\<rparr> reg)"
    using Cons.prems(2) set_update_subset[of "mdl_name_of p" _ reg]
    unfolding binary_named_def by fastforce
  then show ?case using Cons.IH[OF rest] by simp
qed

lemma Model_init_binary_named:
  "Model_init E paths = Inr self \<Longrightarrow> binary_named (models self)"
  using load_models_binary_named[of E paths "[]"]
  by (auto simp: Model_init_def binary_named_def split: sum.splits)

text \<open>
  Claim C6, as the code has it: for every registry built by \<open>__init__\<close> and every label,
  \<open>get_parent_model_from_label\<close> returns the name of the last model, in registry order,
  whose mapping contains the label (the label itself for a single-label model, whose
  mapping is its own name), and the empty string when no mapping contains it. In
  particular a label contained in exactly one mapping yields exactly its owner.
\<close>

theorem parent_is_last_owner:
  assumes "Model_init E paths = Inr self"
  shows "get_parent_model_from_label self label =
           (case filter (owns label) (models self) of
              [] \<Rightarrow> ''''
            | m # ms \<Rightarrow> fst (last (m # ms)))"
  unfolding get_parent_model_from_label_def
  by (rule parent_loop_last[OF Model_init_binary_named[OF assms]])

lemma init_two_owners: "Model_init demo_env [''timer.onnx'', ''words.onnx''] = Inr two_owners"
  by (simp add: Model_init_def demo_env_def mdl_name_of_def os_path_sep_def py_strip_def
      load_class_mapping_def timer_session_def words_session_def two_owners_def)

theorem parent_is_last_owner_witness:
  "Model_init demo_env [''timer.onnx'', ''words.onnx''] = Inr two_owners \<and>
   get_parent_model_from_label two_owners ''two'' = ''timer'' \<and>
   get_parent_model_from_label two_owners ''one'' = ''words'' \<and>
   get_parent_model_from_label two_owners ''stop'' = ''''"
  using parent_is_last_owner[OF init_two_owners, of "''two''"]
    parent_is_last_owner[OF init_two_owners, of "''one''"]
    parent_is_last_owner[OF init_two_owners, of "''stop''"]
  by (simp add: init_two_owners two_owners_def owns_def)

text \<open>
  The claim as written says that the first match is returned. Both multi-output models
  declare the label \<open>one\<close>; \<open>timer\<close> is registered first, and the lookup does not
  return it.
\<close>

theorem parent_first_match_counterexample:
  "Model_init demo_env [''timer.onnx'', ''words.onnx''] = Inr two_owners \<and>
   owns ''one'' (models two_owners ! 0) \<and> fst (models two_owners ! 0) = ''timer'' \<and>
   get_parent_model_from_label two_owners ''one'' \<noteq> ''timer''"
  by (simp add: init_two_owners two_owners_def owns_def get_parent_model_from_label_def)

subsection \<open>The registered name\<close>

lemma mdl_name_of_stem:
  "last (py_split os_path_sep mdl_path) = stem @ ''.onnx'' \<Longrightarrow>
   mdl_name_of mdl_path = py_strip ''.onnx'' stem"
  unfolding mdl_name_of_def by (simp add: py_strip_append_ext)

text \<open>
  Claim C10: the registered name is \<open>strip(".onnx")\<close> of the path's final component,
  and \<open>strip\<close> removes every leading and trailing character of the set
  \<open>{., o, n, x}\<close>. So when the final component is \<open>stem.onnx\<close> and the stem is not
  empty and begins or ends with one of these characters, the registered name is the
  stripped stem and differs from the stem; for a single-output model it is also the
  label stored in \<open>class_mapping\<close> and the only label the reverse lookup answers for
  (the stem itself has no parent).
\<close>

theorem strip_onnx_changes_name:
  assumes comp: "last (py_split os_path_sep mdl_path) = stem @ ''.onnx''"
    and ne: "stem \<noteq> []"
    and edge: "hd stem \<in> set ''.onx'' \<or> last stem \<in> set ''.onx''"
    and sess: "InferenceSession E mdl_path = Inr s"
    and bin: "CHR ''{'' \<notin> set (outputs0_name s)"
  shows "mdl_name_of mdl_path = py_strip ''.onnx'' stem \<and>
         mdl_name_of mdl_path \<noteq> stem \<and>
         (\<exists>self e. Model_init E [mdl_path] = Inr self \<and>
            models self = [(mdl_name_of mdl_path, e)] \<and>
            class_mapping e = Binary (mdl_name_of mdl_path) \<and>
            get_parent_model_from_label self (mdl_name_of mdl_path) = mdl_name_of mdl_path \<and>
            get_parent_model_from_label self stem = '''')"
proof -
  have n: "mdl_name_of mdl_path = py_strip ''.onnx'' stem"
    by (rule mdl_name_of_stem[OF comp])
  have "hd stem \<in> set ''.onnx'' \<or> last stem \<in> set ''.onnx''" using edge by auto
  then have neq: "mdl_name_of mdl_path \<noteq> stem"
    unfolding n by (rule py_strip_neq[OF ne])
  then have neq': "stem \<noteq> mdl_name_of mdl_path" by blast
  show ?thesis using n neq neq' sess bin
    by (simp add: Model_init_def load_class_mapping_def get_parent_model_from_label_def Let_def)
qed

theorem strip_onnx_changes_name_witness:
  "mdl_name_of ''models/oxen.onnx'' = ''e'' \<and> ''e'' \<noteq> ''oxen'' \<and>
   (\<exists>self e. Model_init demo_env [''models/oxen.onnx''] = Inr self \<and>
      models self = [(''e'', e)] \<and> class_mapping e = Binary ''e'' \<and>
      get_parent_model_from_label self ''e'' = ''e'' \<and>
      get_parent_model_from_label self ''oxen'' = '''')"
proof -
  have c: "last (py_split os_path_sep ''models/oxen.onnx'') = ''oxen'' @ ''.onnx''"
    by (simp add: os_path_sep_def)
  have s: "InferenceSession demo_env ''models/oxen.onnx'' = Inr binary_session"
    by (simp add: demo_env_def)
  have b: "CHR ''{'' \<notin> set (outputs0_name binary_session)"
    by (simp add: binary_session_def)
  have n: "mdl_name_of ''models/oxen.onnx'' = ''e''"
    by (simp add: mdl_name_of_def os_path_sep_def py_strip_def)
  show ?thesis
    using strip_onnx_changes_name[OF c _ _ s b] by (simp add: n py_strip_def)
qed

subsection \<open>The prediction buffer\<close>

lemma buf_get_new [simp]: "buf_get new_buffer label = []"
  by (simp add: buf_get_def new_buffer_def)

lemma buf_get_upd [simp]: "buf_get (b(k \<mapsto> d)) label = (if label = k then d else buf_get b label)"
  by (simp add: buf_get_def)

lemma deque_append_drop:
  "deque_append n d v = drop (length (d @ [v]) - n) (d @ [v])" if "length d \<le> n"
proof (cases "length d < n")
  case True
  then show ?thesis by (simp add: deque_append_def)
next
  case False
  with that have n: "n = length d" by simp
  have "drop (Suc 0) xs = tl xs" for xs :: "'a list" by (cases xs) simp_all
  then have "drop (Suc 0) (d @ [v]) = tl (d @ [v])" .
  then show ?thesis by (simp add: deque_append_def n del: drop_append tl_append2)
qed

lemma length_deque_append: "length d \<le> n \<Longrightarrow> 0 < n \<Longrightarrow> length (deque_append n d v) \<le> n"
  by (auto simp: deque_append_def Let_def)

lemma buf_get_append_score:
  "buf_get (snd (append_score b k v)) label =
     (if label = k then deque_append 30 (buf_get b k) (if length (buf_get b k) < 5 then PyFloat 0 else v)
      else buf_get b label)"
  by (simp add: append_score_def Let_def)

lemma append_scores_snoc:
  "append_scores b label (vs @ [v]) = snd (append_score (append_scores b label vs) label v)"
  by (induction vs arbitrary: b) auto

lemma append_scores_other:
  "label' \<noteq> label \<Longrightarrow> buf_get (append_scores b label vs) label' = buf_get b label'"
  by (induction vs arbitrary: b) (auto simp: buf_get_append_score)

lemma length_cold_start [simp]: "length (cold_start vs) = length vs"
  by (auto simp: cold_start_def)

lemma cold_start_snoc:
  "cold_start (vs @ [v]) = cold_start vs @ [if length vs < 5 then PyFloat 0 else v]"
proof (cases "length vs < 5")
  case True
  then have "min 5 (length (vs @ [v])) = Suc (length vs)" "min 5 (length vs) = length vs"
    by auto
  then show ?thesis using True
    by (simp add: cold_start_def replicate_append_same)
next
  case False
  then show ?thesis by (simp add: cold_start_def)
qed

lemma append_scores_new:
  "buf_get (append_scores new_buffer label vs) label = drop (length vs - 30) (cold_start vs)"
proof (induction vs rule: rev_induct)
  case Nil
  then show ?case by (simp add: cold_start_def)
next
  case (snoc v vs)
  let ?prev = "drop (length vs - 30) (cold_start vs)"
  let ?v = "if length vs < 5 then PyFloat 0 else v"
  have len: "length ?prev = min (length vs) 30" by auto
  have lt: "length ?prev < 5 \<longleftrightarrow> length vs < 5" by auto
  have "buf_get (append_scores new_buffer label (vs @ [v])) label = deque_append 30 ?prev ?v"
    unfolding append_scores_snoc buf_get_append_score snoc.IH lt by simp
  also have "\<dots> = drop (length (?prev @ [?v]) - 30) (?prev @ [?v])"
    by (rule deque_append_drop) simp
  also have "\<dots> = drop (Suc (length vs) - 30) (cold_start vs @ [?v])"
  proof (cases "length vs < 30")
    case True
    then show ?thesis by simp
  next
    case False
    then have "Suc (length vs) - 30 = Suc (length vs - 30)" by arith
    moreover have "drop (Suc 0) (?prev @ [?v]) = drop (Suc (length vs - 30)) (cold_start vs @ [?v])"
      using False by (simp add: drop_Suc tl_drop tl_append split: list.splits)
    ultimately show ?thesis using False by (simp add: min_def)
  qed
  finally show ?case by (simp add: cold_start_snoc)
qed

subsection \<open>The buffer loop\<close>

lemma update_buffer_Cons:
  "fst (update_buffer ((k, w) # ps) b) =
     (k, fst (append_score b k w)) # fst (update_buffer ps (snd (append_score b k w)))"
  "snd (update_buffer ((k, w) # ps) b) = snd (update_buffer ps (snd (append_score b k w)))"
  by (simp_all split: prod.splits)

lemma update_buffer_keys: "map fst (fst (update_buffer ps b)) = map fst ps"
proof (induction ps arbitrary: b)
  case Nil
  then show ?case by simp
next
  case (Cons kv ps)
  then show ?case by (cases kv) (simp add: update_buffer_Cons del: update_buffer.simps)
qed

lemma update_buffer_inv:
  assumes step: "\<And>b label v. I b \<Longrightarrow> I (snd (append_score b label v))"
  shows "I b \<Longrightarrow> I (snd (update_buffer ps b))"
proof (induction ps arbitrary: b)
  case Nil
  then show ?case by simp
next
  case (Cons lv ps)
  obtain label v where lv: "lv = (label, v)" by (cases lv)
  have "I (snd (append_score b label v))" using Cons.prems by (rule step)
  then have "I (snd (update_buffer ps (snd (append_score b label v))))" by (rule Cons.IH)
  then show ?case by (simp add: lv update_buffer_Cons del: update_buffer.simps)
qed

lemma update_buffer_other:
  "label \<notin> fst ` set ps \<Longrightarrow> buf_get (snd (update_buffer ps b)) label = buf_get b label"
proof (induction ps arbitrary: b)
  case Nil
  then show ?case by simp
next
  case (Cons lv ps)
  obtain k v where lv: "lv = (k, v)" by (cases lv)
  have "buf_get (snd (update_buffer ps (snd (append_score b k v)))) label
          = buf_get (snd (append_score b k v)) label"
    using Cons.prems by (intro Cons.IH) (simp add: lv)
  also have "\<dots> = buf_get b label" using Cons.prems by (simp add: buf_get_append_score lv)
  finally show ?case by (simp add: lv update_buffer_Cons del: update_buffer.simps)
qed

lemma last_deque_append: "0 < n \<Longrightarrow> deque_append n d v \<noteq> [] \<and> last (deque_append n d v) = v"
  by (cases d) (auto simp: deque_append_def Let_def last_tl)

lemma update_buffer_last:
  assumes "distinct (map fst ps)" "(label, v) \<in> set (fst (update_buffer ps b))"
  shows "buf_get (snd (update_buffer ps b)) label \<noteq> [] \<and>
         last (buf_get (snd (update_buffer ps b)) label) = v"
  using assms
proof (induction ps arbitrary: b)
  case Nil
  then show ?case by simp
next
  case (Cons kv ps)
  obtain k w where kv: "kv = (k, w)" by (cases kv)
  let ?w = "fst (append_score b k w)"
  let ?b = "snd (append_score b k w)"
  have d: "distinct (map fst ps)" and k: "k \<notin> fst ` set ps"
    using Cons.prems(1) by (auto simp: kv)
  have res: "fst (update_buffer (kv # ps) b) = (k, ?w) # fst (update_buffer ps ?b)"
    "snd (update_buffer (kv # ps) b) = snd (update_buffer ps ?b)"
    by (simp_all add: kv update_buffer_Cons del: update_buffer.simps)
  from Cons.prems(2) consider "label = k" "v = ?w" | "(label, v) \<in> set (fst (update_buffer ps ?b))"
    unfolding res by auto
  then show ?case
  proof cases
    case 1
    have "buf_get (snd (update_buffer ps ?b)) k = buf_get ?b k"
      using k by (rule update_buffer_other)
    moreover have "buf_get ?b k = deque_append 30 (buf_get b k) ?w"
      by (simp add: append_score_def Let_def)
    ultimately show ?thesis using last_deque_append[of 30 "buf_get b k" ?w] 1
      unfolding res by simp
  next
    case 2
    then show ?thesis unfolding res using Cons.IH[OF d] by blast
  qed
qed

subsection \<open>The model loop\<close>

lemma predict_models_Cons:
  "predict_models E timing ((mdl, e) # rest) predictions td self =
     (case score_model E mdl e
             (run_model E e (preprocessor self)) predictions of
        Inl err \<Rightarrow> (Inl err, if timing then self\<lparr>clock := Suc (clock self)\<rparr> else self)
      | Inr p1 \<Rightarrow>
          predict_models E timing rest (fst (update_buffer p1 (prediction_buffer self)))
            (if timing
             then AList.update
                    (if fst (update_buffer p1 (prediction_buffer self)) = [] then mdl
                     else fst (last (fst (update_buffer p1 (prediction_buffer self)))))
                    (time_time E (Suc (clock self)) - time_time E (clock self)) td
             else td)
            (if timing
             then self\<lparr>prediction_buffer := snd (update_buffer p1 (prediction_buffer self)),
                       clock := Suc (Suc (clock self))\<rparr>
             else self\<lparr>prediction_buffer := snd (update_buffer p1 (prediction_buffer self))\<rparr>))"
  by (cases timing) (simp_all add: Let_def split: sum.splits prod.splits)

lemma predict_models_inv:
  assumes step: "\<And>b label v. I b \<Longrightarrow> I (snd (append_score b label v))"
  shows "I (prediction_buffer self) \<Longrightarrow>
         I (prediction_buffer (snd (predict_models E timing reg predictions td self)))"
proof (induction reg arbitrary: predictions td self)
  case Nil
  then show ?case by simp
next
  case (Cons me reg)
  obtain mdl e where me: "me = (mdl, e)" by (cases me)
  have ub: "I (snd (update_buffer ps (prediction_buffer self)))" for ps
    using step Cons.prems by (rule update_buffer_inv)
  show ?case
  proof (cases "score_model E mdl e
             (run_model E e (preprocessor self)) predictions")
    case (Inl err)
    then show ?thesis unfolding me predict_models_Cons by (simp add: Cons.prems)
  next
    case (Inr p1)
    show ?thesis unfolding me predict_models_Cons Inr sum.case
      by (rule Cons.IH) (simp add: ub)
  qed
qed

lemma predict_inv:
  assumes step: "\<And>b label v. I b \<Longrightarrow> I (snd (append_score b label v))"
    and init: "I (prediction_buffer self)"
  shows "I (prediction_buffer (snd (predict E self x patience threshold timing)))"
proof -
  have pm: "I (prediction_buffer (snd (predict_models E tm reg [] td s)))"
    if "prediction_buffer s = prediction_buffer self" for reg td s tm
  proof (rule predict_models_inv[where I = I])
    show "I (prediction_buffer s)" using init that by simp
  qed (rule step)
  show ?thesis
  proof (cases timing)
    case True
    let ?s = "self\<lparr>clock := Suc (clock self),
                preprocessor := preprocess E (preprocessor self) x,
                clock := Suc (Suc (clock self))\<rparr>"
    let ?r = "predict_models E True (models self) []
                [(''preprocessor'', time_time E (Suc (clock self)) - time_time E (clock self))] ?s"
    have "I (prediction_buffer (snd ?r))" by (rule pm) simp
    then show ?thesis using True
      by (cases ?r) (auto simp: predict_def Let_def split: sum.splits prod.splits)
  next
    case False
    let ?s = "self\<lparr>preprocessor := preprocess E (preprocessor self) x\<rparr>"
    let ?r = "predict_models E False (models self) [] [] ?s"
    have "I (prediction_buffer (snd ?r))" by (rule pm) simp
    then show ?thesis using False
      by (cases ?r) (auto simp: predict_def Let_def split: sum.splits prod.splits)
  qed
qed

subsection \<open>Capacity and cold start\<close>

lemma bounded_step: "bounded b \<Longrightarrow> bounded (snd (append_score b label v))"
  unfolding bounded_def buf_get_append_score
  by (auto intro: length_deque_append)

lemma cold_step:
  assumes "cold b"
  shows "cold (snd (append_score b label v))"
  unfolding cold_def
proof (intro allI impI ballI)
  fix k w
  let ?d = "buf_get b label"
  assume len: "length (buf_get (snd (append_score b label v)) k) \<le> 5"
    and w: "w \<in> set (buf_get (snd (append_score b label v)) k)"
  show "w = PyFloat 0"
  proof (cases "k = label")
    case False
    then show ?thesis using assms len w by (simp add: buf_get_append_score cold_def)
  next
    case True
    have eq: "buf_get (snd (append_score b label v)) k
                = deque_append 30 ?d (if length ?d < 5 then PyFloat 0 else v)"
      by (simp add: buf_get_append_score True)
    have short: "length ?d < 5"
      using len unfolding eq by (auto simp: deque_append_def Let_def split: if_splits)
    then have "buf_get (snd (append_score b label v)) k = ?d @ [PyFloat 0]"
      unfolding eq by (simp add: deque_append_def)
    moreover have "\<forall>u \<in> set ?d. u = PyFloat 0" using assms short unfolding cold_def by (meson less_imp_le_nat)
    ultimately show ?thesis using w by auto
  qed
qed

lemma bounded_new: "bounded new_buffer"
  by (simp add: bounded_def)

lemma cold_new: "cold new_buffer"
  by (simp add: cold_def)

lemma Model_init_buffer: "Model_init E paths = Inr self \<Longrightarrow> prediction_buffer self = new_buffer"
  by (auto simp: Model_init_def split: sum.splits)

lemma reset_buffer: "prediction_buffer (reset self) = new_buffer"
  by (simp add: reset_def)

text \<open>
  Claim C5: a label's buffer never holds more than 30 entries, and appending to a full
  buffer evicts the oldest entry. Both \<open>__init__\<close> and \<open>reset\<close> install the empty
  buffer; after any sequence of appends to a label, starting there, the label's deque is
  the last 30 of the stored scores in the order of their insertion; and \<open>predict\<close> keeps
  every deque within 30 entries.
\<close>

theorem buffer_bounded_fifo:
  "prediction_buffer (reset self) = new_buffer \<and>
   (Model_init E paths = Inr self0 \<longrightarrow> prediction_buffer self0 = new_buffer) \<and>
   length (buf_get (append_scores new_buffer label vs) label) \<le> 30 \<and>
   buf_get (append_scores new_buffer label vs) label = drop (length vs - 30) (cold_start vs) \<and>
   (bounded (prediction_buffer self) \<longrightarrow>
      bounded (prediction_buffer (snd (predict E self x patience threshold timing))))"
proof -
  have "bounded (prediction_buffer (snd (predict E self x patience threshold timing)))"
    if "bounded (prediction_buffer self)"
    using bounded_step that by (rule predict_inv)
  then show ?thesis
    by (simp add: reset_buffer Model_init_buffer append_scores_new)
qed

theorem buffer_bounded_fifo_witness:
  "Model_init demo_env [''timer.onnx'', ''words.onnx''] = Inr two_owners \<and>
   prediction_buffer two_owners = new_buffer \<and>
   buf_get (append_scores new_buffer ''one'' (map f32 [1, 2, 3, 4, 5, 6, 7])) ''one''
     = [PyFloat 0, PyFloat 0, PyFloat 0, PyFloat 0, PyFloat 0, f32 6, f32 7] \<and>
   bounded (prediction_buffer two_owners) \<and>
   bounded (prediction_buffer (snd (predict demo_env two_owners [] [] [] False)))"
  using buffer_bounded_fifo[of two_owners demo_env "[''timer.onnx'', ''words.onnx'']" two_owners
      "''one''" "map f32 [1, 2, 3, 4, 5, 6, 7]" "[]" "[]" "[]" False]
  by (simp add: init_two_owners cold_start_def) (simp add: two_owners_def bounded_new)

text \<open>
  Claim C2: the first 5 scores appended to a label's buffer after creation or after
  \<open>reset\<close> are 0.0 whatever the raw score is. Both leave every label's deque empty; an
  append to a deque of fewer than 5 entries stores 0.0 (and leaves 0.0 in
  \<open>predictions\<close>); so of any sequence of appends to a label after a reset, the first
  five stored entries are zeros; and \<open>predict\<close> keeps every deque of at most 5 entries
  all zeros.
\<close>

theorem cold_start_zeroes_first_five:
  "buf_get (prediction_buffer (reset self)) label = [] \<and>
   (Model_init E paths = Inr self0 \<longrightarrow> buf_get (prediction_buffer self0) label = []) \<and>
   (length (buf_get b label) < 5 \<longrightarrow>
      append_score b label v = (PyFloat 0, b(label \<mapsto> buf_get b label @ [PyFloat 0]))) \<and>
   (length vs \<le> 30 \<longrightarrow>
      take 5 (buf_get (append_scores (prediction_buffer (reset self)) label vs) label)
        = replicate (min 5 (length vs)) (PyFloat 0)) \<and>
   (cold (prediction_buffer self) \<longrightarrow>
      cold (prediction_buffer (snd (predict E self x patience threshold timing))))"
proof -
  have "cold (prediction_buffer (snd (predict E self x patience threshold timing)))"
    if "cold (prediction_buffer self)"
    using cold_step that by (rule predict_inv)
  moreover have "append_score b label v = (PyFloat 0, b(label \<mapsto> buf_get b label @ [PyFloat 0]))"
    if "length (buf_get b label) < 5"
    using that by (simp add: append_score_def deque_append_def Let_def)
  moreover have "take 5 (cold_start vs) = replicate (min 5 (length vs)) (PyFloat 0)"
    by (cases "length vs \<le> 5") (simp_all add: cold_start_def min_def)
  ultimately show ?thesis
    by (simp add: reset_buffer Model_init_buffer append_scores_new)
qed

theorem cold_start_zeroes_first_five_witness:
  "Model_init demo_env [''timer.onnx'', ''words.onnx''] = Inr two_owners \<and>
   buf_get (prediction_buffer two_owners) ''one'' = [] \<and>
   append_score [''one'' \<mapsto> [PyFloat 0, PyFloat 0]] ''one'' (f32 (9 / 10))
     = (PyFloat 0, [''one'' \<mapsto> [PyFloat 0, PyFloat 0, PyFloat 0]]) \<and>
   take 5 (buf_get (append_scores (prediction_buffer (reset two_owners)) ''one''
                      (map f32 [1, 2, 3, 4, 5, 6, 7])) ''one'')
     = [PyFloat 0, PyFloat 0, PyFloat 0, PyFloat 0, PyFloat 0] \<and>
   cold (prediction_buffer two_owners) \<and>
   cold (prediction_buffer (snd (predict demo_env two_owners [] [] [] False)))"
  using cold_start_zeroes_first_five[of two_owners "''one''" demo_env
      "[''timer.onnx'', ''words.onnx'']" two_owners "[''one'' \<mapsto> [PyFloat 0, PyFloat 0]]"
      "f32 (9 / 10)" "map f32 [1, 2, 3, 4, 5, 6, 7]" "[]" "[]" "[]" False]
  by (simp add: init_two_owners) (simp add: two_owners_def cold_new)

subsection \<open>The timing flag\<close>

lemma predict_models_timing:
  assumes "prediction_buffer s = prediction_buffer s'" "preprocessor s = preprocessor s'"
    "models s = models s'"
  shows "map_sum id fst (fst (predict_models E True reg ps td s))
           = map_sum id fst (fst (predict_models E False reg ps td' s')) \<and>
         prediction_buffer (snd (predict_models E True reg ps td s))
           = prediction_buffer (snd (predict_models E False reg ps td' s')) \<and>
         preprocessor (snd (predict_models E True reg ps td s))
           = preprocessor (snd (predict_models E False reg ps td' s')) \<and>
         models (snd (predict_models E True reg ps td s))
           = models (snd (predict_models E False reg ps td' s'))"
  using assms
proof (induction reg arbitrary: ps td td' s s')
  case Nil
  then show ?case by simp
next
  case (Cons me reg)
  obtain mdl e where me: "me = (mdl, e)" by (cases me)
  let ?out = "run_model E e (preprocessor s')"
  show ?case
  proof (cases "score_model E mdl e ?out ps")
    case (Inl err)
    then show ?thesis using Cons.prems unfolding me predict_models_Cons by simp
  next
    case (Inr p1)
    show ?thesis
      unfolding me predict_models_Cons Cons.prems Inr sum.case if_True if_False
      by (rule Cons.IH) (simp_all add: Cons.prems)
  qed
qed

text \<open>
  Claim C8: two runs of \<open>predict\<close> from the same state, on the same frame and with the
  same patience and threshold, one with \<open>timing\<close> set and one without, return the same
  result (the same scores, or the same exception) and leave the same buffer, preprocessor
  and registry; the timing flag only moves the clock and the printed output.
\<close>

theorem timing_does_not_change_scores:
  "fst (predict E self x patience threshold True) = fst (predict E self x patience threshold False) \<and>
   prediction_buffer (snd (predict E self x patience threshold True))
     = prediction_buffer (snd (predict E self x patience threshold False)) \<and>
   preprocessor (snd (predict E self x patience threshold True))
     = preprocessor (snd (predict E self x patience threshold False)) \<and>
   models (snd (predict E self x patience threshold True))
     = models (snd (predict E self x patience threshold False))"
proof -
  let ?sT = "self\<lparr>clock := Suc (clock self),
                preprocessor := preprocess E (preprocessor self) x,
                clock := Suc (Suc (clock self))\<rparr>"
  let ?tdT = "[(''preprocessor'', time_time E (Suc (clock self)) - time_time E (clock self))]"
  let ?sF = "self\<lparr>preprocessor := preprocess E (preprocessor self) x\<rparr>"
  let ?rT = "predict_models E True (models self) [] ?tdT ?sT"
  let ?rF = "predict_models E False (models self) [] [] ?sF"
  have pT: "predict E self x patience threshold True =
          (case ?rT of
             (Inl err, s4) \<Rightarrow> (Inl err, s4)
           | (Inr (ps, td), s4) \<Rightarrow>
               (case debounce E s4 patience threshold ps of
                  Inl err \<Rightarrow> (Inl err, s4)
                | Inr ps' \<Rightarrow> (Inr ps', s4\<lparr>stdout := stdout s4 @ [td]\<rparr>)))"
    by (simp add: predict_def Let_def split: prod.splits sum.splits)
  have pF: "predict E self x patience threshold False =
          (case ?rF of
             (Inl err, s4) \<Rightarrow> (Inl err, s4)
           | (Inr (ps, td), s4) \<Rightarrow>
               (case debounce E s4 patience threshold ps of
                  Inl err \<Rightarrow> (Inl err, s4)
                | Inr ps' \<Rightarrow> (Inr ps', s4)))"
    by (simp add: predict_def Let_def split: prod.splits sum.splits)
  have same: "map_sum id fst (fst ?rT) = map_sum id fst (fst ?rF) \<and>
        prediction_buffer (snd ?rT) = prediction_buffer (snd ?rF) \<and>
        preprocessor (snd ?rT) = preprocessor (snd ?rF) \<and>
        models (snd ?rT) = models (snd ?rF)"
    by (rule predict_models_timing) simp_all
  have deb: "debounce E s patience threshold ps = debounce E s' patience threshold ps"
    if "prediction_buffer s = prediction_buffer s'" "models s = models s'"
    for s s' :: "('a, 'b) model" and ps
  proof -
    have "apply_patience E s patience threshold ps = apply_patience E s' patience threshold ps"
      by (induction ps) (auto simp: Let_def get_parent_model_from_label_def that split: option.splits)
    then show ?thesis by (simp add: debounce_def)
  qed
  obtain vT sT where rT: "?rT = (vT, sT)" by (cases ?rT)
  obtain vF sF where rF: "?rF = (vF, sF)" by (cases ?rF)
  from same have s: "map_sum id fst vT = map_sum id fst vF"
    "prediction_buffer sT = prediction_buffer sF" "preprocessor sT = preprocessor sF"
    "models sT = models sF"
    unfolding rT rF by simp_all
  show ?thesis
  proof (cases vT)
    case (Inl err)
    then have "vF = Inl err" using s(1) by (cases vF) auto
    then show ?thesis unfolding pT pF rT rF using Inl s by simp
  next
    case (Inr pt)
    then obtain pf where vF: "vF = Inr pf" and "fst pf = fst pt" using s(1) by (cases vF) auto
    then show ?thesis unfolding pT pF rT rF using Inr s deb[OF s(2) s(4), of "fst pt"]
      by (cases pt; cases pf) (auto split: sum.splits)
  qed
qed

subsection \<open>Patience and threshold\<close>

lemma count_trailing:
  "(int (count_ge E t (py_slice_from xs (- k)) r) < k)
     = (int (count_ge E t (trailing k xs) r) < k)"
proof (cases "0 < k")
  case True
  then have "py_clamp (length xs) (- k) = length xs - nat k"
    by (auto simp: py_clamp_def max_def)
  then show ?thesis by (simp add: py_slice_from_def trailing_def)
next
  case False
  then show ?thesis by (simp add: not_less)
qed

lemma apply_patience_eq:
  "apply_patience E self patience threshold ps =
     (if \<exists>label \<in> fst ` set ps. uncovered self patience threshold label then Inl KeyError
      else Inr (map (debounced E self patience threshold) ps))"
proof (induction ps)
  case Nil
  then show ?case by simp
next
  case (Cons lv ps)
  obtain label v where lv: "lv = (label, v)" by (cases lv)
  show ?case
    unfolding lv apply_patience.simps Cons.IH
    by (auto simp: Let_def uncovered_def debounced_def count_trailing split: option.splits)
qed

lemma assign_classes_distinct:
  "assign_classes E d out ps = Inr ps' \<Longrightarrow> distinct (map fst ps) \<Longrightarrow> distinct (map fst ps')"
proof (induction d arbitrary: ps)
  case Nil
  then show ?case by simp
next
  case (Cons ic d)
  obtain i c where ic: "ic = (i, c)" by (cases ic)
  from Cons.prems(1) obtain v where
    rest: "assign_classes E d out (AList.update c v ps) = Inr ps'"
    by (auto simp: ic split: option.splits)
  have "distinct (map fst (AList.update c v ps))"
    using Cons.prems(2) by (simp add: distinct_update)
  with rest show ?case by (rule Cons.IH)
qed

lemma score_model_distinct:
  "score_model E mdl e out ps = Inr ps' \<Longrightarrow> distinct (map fst ps) \<Longrightarrow> distinct (map fst ps')"
  by (auto simp: score_model_def distinct_update assign_classes_distinct
      split: if_splits option.splits label_mapping.splits)

lemma update_buffer_fresh:
  assumes "distinct (map fst ps)"
  shows "fresh_scores (fst (update_buffer ps b)) (snd (update_buffer ps b))"
  unfolding fresh_scores_def
proof (intro conjI ballI)
  show "distinct (map fst (fst (update_buffer ps b)))"
    using assms by (simp add: update_buffer_keys)
next
  fix lv assume "lv \<in> set (fst (update_buffer ps b))"
  then have "(fst lv, snd lv) \<in> set (fst (update_buffer ps b))" by simp
  from update_buffer_last[OF assms this]
  show "buf_get (snd (update_buffer ps b)) (fst lv) \<noteq> []"
    "last (buf_get (snd (update_buffer ps b)) (fst lv)) = snd lv" by simp_all
qed

lemma predict_models_fresh:
  assumes "predict_models E timing reg ps td s = (Inr (ps', td'), s')"
    and "distinct (map fst ps)"
    and "reg = [] \<Longrightarrow> fresh_scores ps (prediction_buffer s)"
  shows "fresh_scores ps' (prediction_buffer s')"
  using assms
proof (induction reg arbitrary: ps td s)
  case Nil
  then show ?case by simp
next
  case (Cons me reg)
  obtain mdl e where me: "me = (mdl, e)" by (cases me)
  let ?out = "run_model E e (preprocessor s)"
  from Cons.prems(1) obtain p1 where p1: "score_model E mdl e ?out ps = Inr p1"
    unfolding me predict_models_Cons by (cases "score_model E mdl e ?out ps") auto
  have d1: "distinct (map fst p1)" using p1 Cons.prems(2) by (rule score_model_distinct)
  let ?p2 = "fst (update_buffer p1 (prediction_buffer s))"
  let ?b2 = "snd (update_buffer p1 (prediction_buffer s))"
  have f2: "fresh_scores ?p2 ?b2" using d1 by (rule update_buffer_fresh)
  then have d2: "distinct (map fst ?p2)" by (simp add: fresh_scores_def)
  from Cons.prems(1) obtain td2 s2 where
    rest: "predict_models E timing reg ?p2 td2 s2 = (Inr (ps', td'), s')"
    and b: "prediction_buffer s2 = ?b2"
    unfolding me predict_models_Cons p1 sum.case by (cases timing) auto
  show ?case using rest d2
  proof (rule Cons.IH)
    show "fresh_scores ?p2 (prediction_buffer s2)" using f2 b by simp
  qed
qed

lemma predict_models_models:
  "models (snd (predict_models E timing reg ps td s)) = models s"
proof (induction reg arbitrary: ps td s timing)
  case Nil
  then show ?case by simp
next
  case (Cons me reg)
  obtain mdl e where me: "me = (mdl, e)" by (cases me)
  show ?case unfolding me predict_models_Cons
    by (simp add: Cons.IH split: sum.splits)
qed

lemma debounce_cong:
  assumes "prediction_buffer s = prediction_buffer s'" "models s = models s'"
  shows "debounce E s patience threshold ps = debounce E s' patience threshold ps"
proof -
  have "debounced E s patience threshold = debounced E s' patience threshold"
    by (rule ext)
       (simp add: debounced_def get_parent_model_from_label_def assms Let_def
          split: prod.splits option.splits)
  moreover have "uncovered s patience threshold = uncovered s' patience threshold"
    by (rule ext) (simp add: uncovered_def get_parent_model_from_label_def assms)
  ultimately show ?thesis by (simp add: debounce_def apply_patience_eq)
qed

lemma predict_unfold:
  "predict E self x patience threshold timing =
     (case predict_loop E self x timing of
        (Inl err, s4) \<Rightarrow> (Inl err, s4)
      | (Inr (ps, td), s4) \<Rightarrow>
          (case debounce E s4 patience threshold ps of
             Inl err \<Rightarrow> (Inl err, s4)
           | Inr ps' \<Rightarrow>
               (Inr ps', if timing then s4\<lparr>stdout := stdout s4 @ [td]\<rparr> else s4)))"
  by (cases timing)
     (simp_all add: predict_def predict_loop_def Let_def split: prod.splits sum.splits)

lemma predict_raw_error:
  assumes "fst (predict E self x [] [] timing) = Inl e"
  shows "fst (predict E self x patience threshold timing) = Inl e"
proof -
  obtain v s4 where r: "predict_loop E self x timing = (v, s4)"
    by (cases "predict_loop E self x timing")
  from assms have "v = Inl e"
    unfolding predict_unfold r by (cases v) (auto simp: debounce_def)
  then show ?thesis unfolding predict_unfold r by simp
qed

lemma predict_via_raw:
  assumes "predict E self x [] [] timing = (Inr raw, s')"
  shows "fst (predict E self x patience threshold timing) = debounce E s' patience threshold raw"
    and "debounce E s' patience threshold raw = Inr res \<Longrightarrow>
         predict E self x patience threshold timing = (Inr res, s')"
    and "fresh_scores raw (prediction_buffer s')"
    and "models s' = models self"
proof -
  obtain v s4 where r0: "predict_loop E self x timing = (v, s4)"
    by (cases "predict_loop E self x timing")
  from assms obtain td where v: "v = Inr (raw, td)"
    and s': "s' = (if timing then s4\<lparr>stdout := stdout s4 @ [td]\<rparr> else s4)"
    unfolding predict_unfold r0 by (cases v) (auto simp: debounce_def)
  note r = r0[unfolded v]
  have deb: "debounce E s4 patience threshold raw = debounce E s' patience threshold raw"
    by (rule debounce_cong) (simp_all add: s')
  show "fst (predict E self x patience threshold timing) = debounce E s' patience threshold raw"
    unfolding predict_unfold r deb[symmetric]
    by (simp split: sum.splits)
  show "predict E self x patience threshold timing = (Inr res, s')"
    if "debounce E s' patience threshold raw = Inr res"
    unfolding predict_unfold r
    using that deb s' by simp
  have "fresh_scores raw (prediction_buffer s4)"
    using r unfolding predict_loop_def
    by (rule predict_models_fresh) (simp_all add: fresh_scores_def)
  then show "fresh_scores raw (prediction_buffer s')" by (simp add: s')
  have "models (snd (predict_loop E self x timing)) = models self"
    unfolding predict_loop_def predict_models_models by simp
  then show "models s' = models self" by (simp add: r s')
qed


lemmas demo_simps =
  predict_def demo_env_def warm_alexa_def alexa_entry_def binary_session_def
  score_model_def run_model_def py_index_def append_score_def deque_append_def buf_get_def
  Let_def

lemma warm_alexa_raw:
  "predict demo_env (warm_alexa [6 / 10, w]) [] [] [] False
     = (Inr [(''alexa'', f32 (7 / 10))],
        (warm_alexa [6 / 10, w, 7 / 10])\<lparr>preprocessor := 8\<rparr>)"
  by (simp add: demo_simps debounce_def)






lemma fresh_half_35_frames:
  "buf_get (prediction_buffer (snd (predict_each demo_env fresh_half (replicate 35 []) [] [] False)))
     ''half'' = buf_get (prediction_buffer steady_half) ''half''"
  "preprocessor (snd (predict_each demo_env fresh_half (replicate 35 []) [] [] False))
     = preprocessor steady_half"
  by code_simp+


text \<open>
  Claim C3, as the code has it. A call with a non-empty patience map fails exactly as
  follows: an exception of the scoring stage is raised unchanged; otherwise an empty
  threshold map raises \<open>ValueError\<close>; otherwise \<open>KeyError\<close> is raised when some label
  returned by the models has a parent with a patience entry and no threshold entry; and
  otherwise the call returns the debounced scores. A patience key that is the parent of
  no returned label is never looked up in threshold.
\<close>

theorem patience_without_threshold:
  assumes pne: "patience \<noteq> []"
  shows "(\<forall>e. fst (predict E self x [] [] timing) = Inl e \<longrightarrow>
            fst (predict E self x patience threshold timing) = Inl e) \<and>
         (\<forall>raw s. predict E self x [] [] timing = (Inr raw, s) \<longrightarrow>
            fst (predict E self x patience threshold timing) =
              (if threshold = [] then Inl ValueError
               else if \<exists>label \<in> fst ` set raw. uncovered s patience threshold label
                    then Inl KeyError
                    else Inr (map (debounced E s patience threshold) raw)))"
proof (intro conjI allI impI)
  fix e assume "fst (predict E self x [] [] timing) = Inl e"
  then show "fst (predict E self x patience threshold timing) = Inl e"
    by (rule predict_raw_error)
next
  fix raw s assume "predict E self x [] [] timing = (Inr raw, s)"
  then have "fst (predict E self x patience threshold timing) = debounce E s patience threshold raw"
    by (rule predict_via_raw(1))
  then show "fst (predict E self x patience threshold timing) =
              (if threshold = [] then Inl ValueError
               else if \<exists>label \<in> fst ` set raw. uncovered s patience threshold label
                    then Inl KeyError
                    else Inr (map (debounced E s patience threshold) raw))"
    by (simp add: debounce_def apply_patience_eq pne)
qed

theorem patience_without_threshold_witness:
  "fst (predict demo_env broken_model [] [] [] False) = Inl AttributeError \<and>
   fst (predict demo_env broken_model [] [(''alexa'', 3)] [] False) = Inl AttributeError \<and>
   fst (predict demo_env (warm_alexa [6 / 10, 5 / 10]) [] [(''alexa'', 3)] [] False)
     = Inl ValueError \<and>
   fst (predict demo_env (warm_alexa [6 / 10, 5 / 10]) [] [(''alexa'', 3)] [(''jarvis'', 1 / 2)] False)
     = Inl KeyError \<and>
   fst (predict demo_env (warm_alexa [6 / 10, 5 / 10]) [] [(''alexa'', 3)] [(''alexa'', 1 / 2)] False)
     = Inr [(''alexa'', f32 (7 / 10))]"
proof -
  have p: "[(''alexa'', 3 :: int)] \<noteq> []" by simp
  have e: "fst (predict demo_env broken_model [] [] [] False) = Inl AttributeError"
    by (simp add: predict_def broken_model_def demo_env_def binary_session_def score_model_def
        run_model_def Let_def)
  note b = patience_without_threshold[OF p, THEN conjunct1, rule_format, OF e]
  note w = patience_without_threshold[OF p, THEN conjunct2, rule_format, OF warm_alexa_raw]
  show ?thesis
    using e b[of "[]"] w[of "5 / 10" "[]"] w[of "5 / 10" "[(''jarvis'', 1 / 2)]"]
      w[of "5 / 10" "[(''alexa'', 1 / 2)]"]
    by (simp add: uncovered_def debounced_def get_parent_model_from_label_def
        trailing_def warm_alexa_def alexa_entry_def buf_get_def count_ge_def array_dtype_def)
qed

text \<open>
  The claim as written says that a patience key without a threshold entry makes the call
  fail. Here \<open>ghost\<close> is a key of patience and not of threshold, and the call returns the
  score of \<open>alexa\<close>.
\<close>

theorem patience_key_unchecked_counterexample:
  "[(''ghost'', 3 :: int)] \<noteq> [] \<and>
   \<not> fst ` set [(''ghost'', 3 :: int)] \<subseteq> fst ` set [(''alexa'', 1 / 2 :: real)] \<and>
   fst (predict demo_env (warm_alexa [6 / 10, 5 / 10]) [] [(''ghost'', 3)] [(''alexa'', 1 / 2)] False)
     = Inr [(''alexa'', f32 (7 / 10))]"
  by (simp add: demo_simps debounce_def get_parent_model_from_label_def)

subsection \<open>Appends per call\<close>

lemma init_two_binary:
  "Model_init demo_env [''alexa.onnx'', ''jarvis.onnx''] = Inr two_binary"
  by (simp add: Model_init_def demo_env_def mdl_name_of_def os_path_sep_def py_strip_def
      load_class_mapping_def binary_session_def two_binary_def alexa_entry_def jarvis_entry_def
      Let_def)

text \<open>
  Claim C4 says that one \<open>predict\<close> call appends each label's score to its buffer
  once. The buffer loop is nested inside the loop over the models, so with two
  registered models the first model's label is appended twice per call: after one call
  the deque of \<open>alexa\<close> holds two entries and that of \<open>jarvis\<close> one, and on the fourth
  frame \<open>alexa\<close> is already past its cold start while \<open>jarvis\<close> is not.
\<close>

theorem first_model_appended_twice:
  "Model_init demo_env [''alexa.onnx'', ''jarvis.onnx''] = Inr two_binary \<and>
   buf_get (prediction_buffer (snd (predict demo_env two_binary [] [] [] False))) ''alexa''
     = [PyFloat 0, PyFloat 0] \<and>
   buf_get (prediction_buffer (snd (predict demo_env two_binary [] [] [] False))) ''jarvis''
     = [PyFloat 0] \<and>
   fst (predict_each demo_env two_binary [ [], [], [], []] [] [] False)
     = Inr [ [(''alexa'', PyFloat 0), (''jarvis'', PyFloat 0)],
            [(''alexa'', PyFloat 0), (''jarvis'', PyFloat 0)],
            [(''alexa'', PyFloat 0), (''jarvis'', PyFloat 0)],
            [(''alexa'', f32 (7 / 10)), (''jarvis'', PyFloat 0)]]"
  by (simp add: init_two_binary)
     (simp add: predict_def demo_env_def two_binary_def alexa_entry_def jarvis_entry_def
        binary_session_def score_model_def run_model_def py_index_def append_score_def
        deque_append_def buf_get_def new_buffer_def debounce_def Let_def)

subsection \<open>Clips\<close>

lemma py_range_upt:
  "0 < step \<Longrightarrow> i + (int k - 1) * step < stop \<Longrightarrow> stop \<le> i + int k * step \<Longrightarrow>
   py_range i stop step = map (\<lambda>j. i + int j * step) [0..<k]"
proof (induction k arbitrary: i)
  case 0
  then show ?case by (simp add: py_range.simps)
next
  case (Suc k)
  have lt: "i < stop"
  proof -
    have "0 \<le> int k * step" using Suc.prems(1) by simp
    then show ?thesis using Suc.prems(2) by simp
  qed
  have "py_range (i + step) stop step = map (\<lambda>j. (i + step) + int j * step) [0..<k]"
    using Suc.prems by (intro Suc.IH) (simp_all add: algebra_simps)
  moreover have "map (\<lambda>j. i + int j * step) [0..<Suc k]
                   = i # map (\<lambda>j. (i + step) + int j * step) [0..<k]"
    by (simp add: map_upt_Suc algebra_simps del: upt_Suc)
  ultimately show ?case
    using lt Suc.prems(1) by (subst py_range.simps) simp
qed

lemma py_slice_frame:
  "(j + 1) * 1280 \<le> length data \<Longrightarrow>
   py_slice data (int j * 1280) (int j * 1280 + 1280) = take 1280 (drop (j * 1280) data)"
  by (simp add: py_slice_def py_clamp_def Let_def nat_mult_distrib nat_add_distrib min_def)

lemma clip_indices_frames:
  assumes "n * 1280 \<le> length data"
  shows "map (\<lambda>i. py_slice data i (i + 1280)) (map (\<lambda>j. 0 + int j * 1280) [0..<n])
           = frames_of data n"
  unfolding frames_of_def map_map
proof (rule map_cong[OF refl])
  fix j assume "j \<in> set [0..<n]"
  then have "(j + 1) * 1280 \<le> length data" using assms by simp
  then show "((\<lambda>i. py_slice data i (i + 1280)) \<circ> (\<lambda>j. 0 + int j * 1280)) j
               = take 1280 (drop (j * 1280) data)"
    using py_slice_frame[of j data] by simp
qed

lemma clip_loop_each:
  "clip_loop E self data is patience threshold timing acc =
     (case predict_each E self (map (\<lambda>i. py_slice data i (i + 1280)) is)
             patience threshold timing of
        (Inl err, s) \<Rightarrow> (Inl err, s)
      | (Inr rs, s) \<Rightarrow> (Inr (acc @ rs), s))"
proof (induction "is" arbitrary: self acc)
  case Nil
  then show ?case by simp
next
  case (Cons i "is")
  show ?case
    by (simp add: Cons.IH split: prod.splits sum.splits)
qed

lemma predict_each_length:
  "predict_each E self xs patience threshold timing = (Inr rs, s) \<Longrightarrow> length rs = length xs"
proof (induction xs arbitrary: self rs)
  case Nil
  then show ?case by simp
next
  case (Cons x xs)
  then show ?case by (auto split: prod.splits sum.splits)
qed

lemma length_frames_of [simp]: "length (frames_of data n) = n"
  by (simp add: frames_of_def)

lemma frames_of_full:
  "n * 1280 \<le> length data \<Longrightarrow> x \<in> set (frames_of data n) \<Longrightarrow> length x = 1280"
  by (auto simp: frames_of_def)

lemma concat_frames_of:
  "n * 1280 \<le> length data \<Longrightarrow> concat (frames_of data n) = take (n * 1280) data"
proof (induction n)
  case 0
  then show ?case by (simp add: frames_of_def)
next
  case (Suc n)
  then have "concat (frames_of data n) = take (n * 1280) data" by simp
  moreover have "take (n * 1280) data @ take 1280 (drop (n * 1280) data)
                   = take (n * 1280 + 1280) data"
    by (simp add: take_add)
  ultimately show ?case by (simp add: frames_of_def add.commute)
qed

lemma py_index_Some:
  "- int (length xs) \<le> i \<Longrightarrow> i < int (length xs) \<Longrightarrow> \<exists>v. py_index xs i = Some v"
  by (auto simp: py_index_def)

lemma assign_classes_ok:
  assumes "\<forall>int_label \<in> fst ` set d.
             case py_int E int_label of
               None \<Rightarrow> False
             | Some i \<Rightarrow> - int (length out) \<le> i \<and> i < int (length out)"
  shows "\<exists>ps'. assign_classes E d out ps = Inr ps'"
  using assms
proof (induction d arbitrary: ps)
  case Nil
  then show ?case by simp
next
  case (Cons ic d)
  obtain il c where ic: "ic = (il, c)" by (cases ic)
  from Cons.prems obtain i where i: "py_int E il = Some i"
    "- int (length out) \<le> i" "i < int (length out)"
    by (auto simp: ic split: option.splits)
  from py_index_Some[OF i(2,3)] obtain v where v: "py_index out i = Some v" ..
  have "\<exists>ps'. assign_classes E d out (AList.update c v ps) = Inr ps'"
    using Cons.prems by (intro Cons.IH) simp
  then show ?case by (simp add: ic i(1) v)
qed

lemma score_model_ok:
  "scorable E e out \<Longrightarrow> \<exists>ps'. score_model E mdl e out ps = Inr ps'"
proof (cases "model_output e = 1")
  case True
  assume "scorable E e out"
  then have "out \<noteq> []" using True by (simp add: scorable_def)
  then have "\<exists>v. py_index out 0 = Some v" by (intro py_index_Some) simp_all
  then show ?thesis using True by (auto simp: score_model_def)
next
  case False
  assume s: "scorable E e out"
  then obtain d where d: "class_mapping e = Multiclass d"
    using False by (cases "class_mapping e") (auto simp: scorable_def)
  have "\<exists>ps'. assign_classes E d out ps = Inr ps'"
    using s False d by (intro assign_classes_ok) (simp add: scorable_def)
  then show ?thesis using False d by (simp add: score_model_def)
qed

lemma predict_models_ok:
  "registry_ok E reg \<Longrightarrow> \<exists>r s'. predict_models E timing reg ps td s = (Inr r, s')"
proof (induction reg arbitrary: ps td s timing)
  case Nil
  then show ?case by simp
next
  case (Cons me reg)
  obtain mdl e where me: "me = (mdl, e)" by (cases me)
  have ok: "registry_ok E reg" using Cons.prems by (simp add: registry_ok_def)
  have "scorable E e (run (session e) (model_input_name e) f)" for f
    using Cons.prems by (simp add: registry_ok_def me)
  moreover have "scorable E e (map g xs) = scorable E e xs" for g :: "real \<Rightarrow> score" and xs
    by (auto simp: scorable_def split: label_mapping.splits option.splits)
  ultimately have "scorable E e (run_model E e pre)" for pre
    by (simp add: run_model_def)
  from score_model_ok[OF this] obtain p1 where
    "score_model E mdl e (run_model E e (preprocessor s)) ps = Inr p1" by blast
  then show ?case unfolding me predict_models_Cons
    using Cons.IH[OF ok] by simp
qed

lemma predict_ok:
  assumes "registry_ok E (models self)"
  shows "\<exists>raw s'. predict E self x [] [] timing = (Inr raw, s') \<and> models s' = models self"
proof -
  from predict_models_ok[OF assms] obtain r s4 where
    r: "predict_loop E self x timing = (Inr r, s4)"
    unfolding predict_loop_def by blast
  have "models (snd (predict_loop E self x timing)) = models self"
    unfolding predict_loop_def predict_models_models by simp
  then have "models s4 = models self" by (simp add: r)
  then show ?thesis unfolding predict_unfold r
    by (cases r) (simp add: debounce_def)
qed

lemma predict_each_ok:
  "registry_ok E (models self) \<Longrightarrow>
   \<exists>rs s'. predict_each E self xs [] [] timing = (Inr rs, s')"
proof (induction xs arbitrary: self)
  case Nil
  then show ?case by simp
next
  case (Cons x xs)
  from predict_ok[OF Cons.prems] obtain raw s1 where
    p: "predict E self x [] [] timing = (Inr raw, s1)" and m: "models s1 = models self"
    by blast
  have "registry_ok E (models s1)" using Cons.prems m by simp
  from Cons.IH[OF this] obtain rs s2 where
    "predict_each E s1 xs [] [] timing = (Inr rs, s2)" by blast
  then show ?case by (simp add: p)
qed

lemma clip_loop_frames:
  assumes lo: "(int n - 1) * 1280 < int (length data) - 1280"
    and hi: "int (length data) - 1280 \<le> int n * 1280"
    and fit: "n * 1280 \<le> length data"
  shows "clip_loop E self data (py_range 0 (int (length data) - 1280) 1280)
           patience threshold timing []
         = predict_each E self (frames_of data n) patience threshold timing"
proof -
  have "py_range 0 (int (length data) - 1280) 1280 = map (\<lambda>j. 0 + int j * 1280) [0..<n]"
    using lo hi by (intro py_range_upt) simp_all
  then show ?thesis
    unfolding clip_loop_each
    by (simp only: clip_indices_frames[OF fit]) (simp split: prod.splits sum.splits)
qed

text \<open>
  Claim C7: for a clip of \<open>N\<close> whole frames of 1280 samples and a remainder of
  \<open>0 < r < 1280\<close> samples, \<open>predict_clip\<close> without padding is \<open>predict\<close> called once per
  frame, in order, on the \<open>N\<close> consecutive frames of 1280 samples that make up the first
  \<open>N * 1280\<close> samples; the remainder is passed to no call. Whenever it returns, it returns
  \<open>N\<close> result maps, and it does return when the models' output rows fit their metadata
  and no patience is given.
\<close>

theorem clip_drops_partial_frame:
  assumes rd: "wave_read E clip = Inr data"
    and len: "length data = N * 1280 + r"
    and r: "0 < r" "r < 1280"
  shows "predict_clip E self clip 0 patience threshold timing
           = predict_each E self (frames_of data N) patience threshold timing \<and>
         (\<forall>x \<in> set (frames_of data N). length x = 1280) \<and>
         concat (frames_of data N) = take (N * 1280) data \<and>
         (\<forall>rs s. predict_clip E self clip 0 patience threshold timing = (Inr rs, s)
            \<longrightarrow> length rs = N) \<and>
         (registry_ok E (models self) \<longrightarrow>
            (\<exists>rs s. predict_clip E self clip 0 [] [] timing = (Inr rs, s) \<and> length rs = N))"
proof -
  have fit: "N * 1280 \<le> length data" using len by simp
  have eq: "predict_clip E self clip 0 p t timing
              = predict_each E self (frames_of data N) p t timing" for p t
  proof -
    have "clip_loop E self data (py_range 0 (int (length data) - 1280) 1280) p t timing []
            = predict_each E self (frames_of data N) p t timing"
      using len r fit by (intro clip_loop_frames) simp_all
    then show ?thesis by (simp add: predict_clip_def rd pad_clip_def)
  qed
  have l: "length rs = N"
    if "predict_each E self (frames_of data N) p t timing = (Inr rs, s)" for rs s p t
    using predict_each_length[OF that] by simp
  have "\<exists>rs s. predict_each E self (frames_of data N) [] [] timing = (Inr rs, s) \<and> length rs = N"
    if "registry_ok E (models self)"
    using predict_each_ok[OF that, of "frames_of data N" timing] l by blast
  then show ?thesis
    using eq l frames_of_full[OF fit] concat_frames_of[OF fit] by auto
qed

lemma registry_ok_two_binary: "registry_ok demo_env (models two_binary)"
  by (simp add: registry_ok_def scorable_def two_binary_def alexa_entry_def jarvis_entry_def
      binary_session_def)

theorem clip_drops_partial_frame_witness:
  "wave_read demo_env ''clip.wav'' = Inr (replicate 2600 0) \<and>
   length (replicate 2600 (0 :: sample)) = 2 * 1280 + 40 \<and>
   registry_ok demo_env (models two_binary) \<and>
   predict_clip demo_env two_binary ''clip.wav'' 0 [] [] False
     = predict_each demo_env two_binary (frames_of (replicate 2600 0) 2) [] [] False \<and>
   (\<exists>rs s. predict_clip demo_env two_binary ''clip.wav'' 0 [] [] False = (Inr rs, s) \<and>
      length rs = 2)"
proof -
  have rd: "wave_read demo_env ''clip.wav'' = Inr (replicate 2600 0)"
    by (simp add: demo_env_def)
  have len: "length (replicate 2600 (0 :: sample)) = 2 * 1280 + 40" by simp
  have r: "(0 :: nat) < 40" "(40 :: nat) < 1280" by simp_all
  note w = clip_drops_partial_frame[OF rd len r, of two_binary "[]" "[]" False]
  from w have "predict_clip demo_env two_binary ''clip.wav'' 0 [] [] False
     = predict_each demo_env two_binary (frames_of (replicate 2600 0) 2) [] [] False"
    by (rule conjunct1)
  moreover from w registry_ok_two_binary
  have "\<exists>rs s. predict_clip demo_env two_binary ''clip.wav'' 0 [] [] False = (Inr rs, s) \<and>
      length rs = 2"
    by blast
  ultimately show ?thesis using rd len registry_ok_two_binary by blast
qed

text \<open>
  Claim C9: when the samples, after padding, are exactly \<open>N \<ge> 1\<close> whole frames,
  \<open>range(0, length - 1280, 1280)\<close> stops before the last frame: \<open>predict_clip\<close> is
  \<open>predict\<close> called on the first \<open>N - 1\<close> frames only, the last 1280 samples are passed to
  no call, and whenever it returns it returns \<open>N - 1\<close> result maps (and it does return
  when the models' output rows fit their metadata and no patience is given).
\<close>

theorem clip_omits_last_whole_frame:
  assumes rd: "wave_read E clip = Inr data0"
    and pad: "pad_clip padding data0 = Inr data"
    and len: "length data = N * 1280"
    and N: "1 \<le> N"
  shows "predict_clip E self clip padding patience threshold timing
           = predict_each E self (frames_of data (N - 1)) patience threshold timing \<and>
         concat (frames_of data (N - 1)) = take ((N - 1) * 1280) data \<and>
         length (drop ((N - 1) * 1280) data) = 1280 \<and>
         (\<forall>rs s. predict_clip E self clip padding patience threshold timing = (Inr rs, s)
            \<longrightarrow> length rs = N - 1) \<and>
         (registry_ok E (models self) \<longrightarrow>
            (\<exists>rs s. predict_clip E self clip padding [] [] timing = (Inr rs, s) \<and>
               length rs = N - 1))"
proof -
  obtain M where M: "N = Suc M" using N by (cases N) auto
  have fit: "M * 1280 \<le> length data" using len M by simp
  have eq: "predict_clip E self clip padding p t timing
              = predict_each E self (frames_of data M) p t timing" for p t
  proof -
    have "clip_loop E self data (py_range 0 (int (length data) - 1280) 1280) p t timing []
            = predict_each E self (frames_of data M) p t timing"
      using len M fit by (intro clip_loop_frames) simp_all
    then show ?thesis by (simp add: predict_clip_def rd pad)
  qed
  have l: "length rs = M"
    if "predict_each E self (frames_of data M) p t timing = (Inr rs, s)" for rs s p t
    using predict_each_length[OF that] by simp
  have "\<exists>rs s. predict_each E self (frames_of data M) [] [] timing = (Inr rs, s) \<and> length rs = M"
    if "registry_ok E (models self)"
    using predict_each_ok[OF that, of "frames_of data M" timing] l by blast
  moreover have "length (drop (M * 1280) data) = 1280" using len M by simp
  ultimately show ?thesis
    using eq l concat_frames_of[OF fit] by (auto simp: M)
qed

theorem clip_omits_last_whole_frame_witness:
  "wave_read demo_env ''whole.wav'' = Inr (replicate 2560 0) \<and>
   pad_clip 0 (replicate 2560 0) = Inr (replicate 2560 0) \<and>
   length (replicate 2560 (0 :: sample)) = 2 * 1280 \<and>
   registry_ok demo_env (models two_binary) \<and>
   (\<exists>rs s. predict_clip demo_env two_binary ''whole.wav'' 0 [] [] False = (Inr rs, s) \<and>
      length rs = 1) \<and>
   (\<exists>rs s. predict_clip demo_env two_binary ''whole.wav'' 1 [] [] False = (Inr rs, s) \<and>
      length rs = 26)"
proof -
  have rd: "wave_read demo_env ''whole.wav'' = Inr (replicate 2560 0)"
    by (simp add: demo_env_def)
  have pad0: "pad_clip 0 (replicate 2560 0) = Inr (replicate 2560 0)"
    by (simp add: pad_clip_def)
  have len0: "length (replicate 2560 (0 :: sample)) = 2 * 1280" by simp
  have pad1: "pad_clip 1 (replicate 2560 0)
                = Inr (replicate 16000 0 @ replicate 2560 0 @ replicate 16000 0)"
    by (simp add: pad_clip_def)
  have len1: "length (replicate 16000 (0 :: sample) @ replicate 2560 0 @ replicate 16000 0)
                = 27 * 1280" by simp
  have one: "2 - 1 = (1 :: nat)" "27 - 1 = (26 :: nat)" "(1 :: nat) \<le> 2" "(1 :: nat) \<le> 27"
    by simp_all
  from clip_omits_last_whole_frame[OF rd pad0 len0 one(3), of two_binary "[]" "[]" False]
    registry_ok_two_binary
  have a: "\<exists>rs s. predict_clip demo_env two_binary ''whole.wav'' 0 [] [] False = (Inr rs, s) \<and>
      length rs = 1"
    unfolding one by blast
  from clip_omits_last_whole_frame[OF rd pad1 len1 one(4), of two_binary "[]" "[]" False]
    registry_ok_two_binary
  have b: "\<exists>rs s. predict_clip demo_env two_binary ''whole.wav'' 1 [] [] False = (Inr rs, s) \<and>
      length rs = 26"
    unfolding one by blast
  show ?thesis using a b rd pad0 len0 registry_ok_two_binary by blast
qed

end
